theory Spec2Isabelle
  imports Main "HOL-Library.Sublist" "HOL-Library.Multiset"
begin

section \<open>Python strings\<close>

text \<open>
  The log text is a Python \<open>str\<close>. It is modelled as a \<open>string\<close>, one \<open>char\<close> per code
  point, which covers the code points below 256 (ASCII and Latin-1). The functions below
  give Python's behaviour on that range.
\<close>

definition newline :: char where
  "newline = CHR 0x0A"

text \<open>\<open>str.isspace\<close> on one character: TAB..CR, FS..US, space, NEL and NBSP.\<close>

definition isspace :: "char \<Rightarrow> bool" where
  "isspace c =
     (let n = (of_char c :: nat)
      in (9 \<le> n \<and> n \<le> 13) \<or> (28 \<le> n \<and> n \<le> 32) \<or> n = 133 \<or> n = 160)"

text \<open>\<open>str.strip()\<close>: whitespace is removed at both ends.\<close>

definition strip :: "string \<Rightarrow> string" where
  "strip s = rev (dropWhile isspace (rev (dropWhile isspace s)))"

text \<open>
  The lower-case mapping that \<open>re.IGNORECASE\<close> compares characters under: \<open>A..Z\<close> and the
  Latin-1 capitals (0xC0..0xDE without the multiplication sign 0xD7) move up by 32.
\<close>

definition lower_char :: "char \<Rightarrow> char" where
  "lower_char c =
     (let n = (of_char c :: nat)
      in if (65 \<le> n \<and> n \<le> 90) \<or> (192 \<le> n \<and> n \<le> 222 \<and> n \<noteq> 215)
         then char_of (n + 32) else c)"

definition lower :: "string \<Rightarrow> string" where
  "lower s = map lower_char s"

text \<open>\<open>'\n'.join(xs)\<close> and \<open>s.split('\n')\<close>.\<close>

fun join_nl :: "string list \<Rightarrow> string" where
  "join_nl [] = []"
| "join_nl [x] = x"
| "join_nl (x # y # ys) = x @ newline # join_nl (y # ys)"

fun split_nl :: "string \<Rightarrow> string list" where
  "split_nl [] = [[]]"
| "split_nl (c # cs) =
     (if c = newline then [] # split_nl cs
      else (case split_nl cs of [] \<Rightarrow> [[c]] | l # ls \<Rightarrow> (c # l) # ls))"

text \<open>\<open>str(n)\<close> for a non-negative integer.\<close>

definition digit_char :: "nat \<Rightarrow> char" where
  "digit_char d = char_of (48 + d)"

fun str_nat :: "nat \<Rightarrow> string" where
  "str_nat n = (if n < 10 then [digit_char n] else str_nat (n div 10) @ [digit_char (n mod 10)])"

declare str_nat.simps [simp del]

section \<open>Regular expressions of the pattern catalogs\<close>

text \<open>
  The catalogs use literals, alternation, grouping, concatenation and \<open>.*\<close> only.
  \<open>DotStar\<close> is \<open>.*\<close>: any run of characters other than the newline. Groups capture
  nothing that the program reads, so they are left out of the syntax tree.
\<close>

datatype regex = Lit string | DotStar | Alt regex regex | Cat regex regex

fun dotstar_rests :: "string \<Rightarrow> string list" where
  "dotstar_rests [] = [[]]"
| "dotstar_rests (c # cs) = (c # cs) # (if c = newline then [] else dotstar_rests cs)"

text \<open>
  \<open>rmatch r s\<close> lists what is left of \<open>s\<close> after each way \<open>r\<close> matches a prefix of it,
  characters compared under \<open>re.IGNORECASE\<close>.
\<close>

fun rmatch :: "regex \<Rightarrow> string \<Rightarrow> string list" where
  "rmatch (Lit p) s =
     (if lower (take (length p) s) = lower p then [drop (length p) s] else [])"
| "rmatch DotStar s = dotstar_rests s"
| "rmatch (Alt r1 r2) s = rmatch r1 s @ rmatch r2 s"
| "rmatch (Cat r1 r2) s = concat (map (rmatch r2) (rmatch r1 s))"

text \<open>\<open>re.search(r, s, re.IGNORECASE)\<close> as a truth value: a match starts somewhere.\<close>

fun re_search :: "regex \<Rightarrow> string \<Rightarrow> bool" where
  "re_search r [] = (rmatch r [] \<noteq> [])"
| "re_search r (c # cs) = (rmatch r (c # cs) \<noteq> [] \<or> re_search r cs)"

section \<open>The analyzer\<close>

text \<open>A finding is the dict \<open>{'type': ..., 'line': ...}\<close>.\<close>

record Finding =
  f_type :: string
  f_line :: string

text \<open>
  The fields that \<open>__init__\<close> sets. \<open>patterns\<close> is a \<open>defaultdict(int)\<close>; it is an
  association list in insertion order, which is the order Python iterates it in.
\<close>

record LogAnalyzer =
  errors :: "Finding list"
  warnings :: "Finding list"
  stack_traces :: "string list"
  patterns :: "(string \<times> nat) list"
  security_issues :: "Finding list"
  performance_issues :: "Finding list"

definition init :: LogAnalyzer where
  "init = \<lparr>errors = [], warnings = [], stack_traces = [], patterns = [],
           security_issues = [], performance_issues = []\<rparr>"

text \<open>\<open>d[k] += 1\<close> on the \<open>defaultdict(int)\<close>: a missing key is inserted at the end.\<close>

fun incr :: "string \<Rightarrow> (string \<times> nat) list \<Rightarrow> (string \<times> nat) list" where
  "incr k [] = [(k, 1)]"
| "incr k ((k', n) # m) = (if k = k' then (k', n + 1) # m else (k', n) # incr k m)"

text \<open>Reading a count: a key that was never incremented counts 0.\<close>

definition count_of :: "(string \<times> nat) list \<Rightarrow> string \<Rightarrow> nat" where
  "count_of m k = (case map_of m k of None \<Rightarrow> 0 | Some n \<Rightarrow> n)"

subsection \<open>The pattern catalogs\<close>

definition error_patterns :: "(regex \<times> string) list" where
  "error_patterns =
    [(Alt (Lit ''NullPointerException'') (Lit ''null pointer''), ''Null Pointer Exception''),
     (Lit ''NoSuchMethodError'', ''No Such Method Error''),
     (Lit ''ClassCastException'', ''Type Cast Error''),
     (Lit ''OutOfMemoryError'', ''Out of Memory''),
     (Lit ''StackOverflowError'', ''Stack Overflow''),
     (Alt (Lit ''IOException'') (Lit ''File not found''), ''File I/O Error''),
     (Alt (Lit ''NetworkError'') (Lit ''Connection refused''), ''Network Error''),
     (Lit ''TimeoutException'', ''Timeout Error''),
     (Alt (Lit ''FormatException'') (Lit ''JSON parsing''), ''Format/JSON Parse Error''),
     (Alt (Lit ''StateError'') (Lit ''Invalid state''), ''State Error'')]"

definition null_patterns :: "regex list" where
  "null_patterns =
    [Lit ''null safety'',
     Lit ''nullable type'',
     Lit ''null propagation'',
     Cat (Lit ''Unhandled Exception'') (Cat DotStar (Lit ''null'')),
     Cat (Lit ''accessing'') (Cat DotStar (Lit ''null''))]"

definition async_patterns :: "regex list" where
  "async_patterns =
    [Cat (Alt (Lit ''uncaught'') (Lit ''unhandled''))
       (Cat DotStar (Alt (Lit ''future'') (Alt (Lit ''async'') (Lit ''await'')))),
     Cat (Lit ''future'') (Cat DotStar (Lit ''failed'')),
     Alt (Lit ''bad state'') (Lit ''invalid async''),
     Cat (Lit ''stream'') (Cat DotStar (Lit ''closed'')),
     Cat (Lit ''subscript'') (Cat DotStar (Lit ''cancelled'')),
     Lit ''MissingPluginException'']"

definition security_patterns :: "(regex \<times> string) list" where
  "security_patterns =
    [(Cat (Alt (Lit ''password'') (Alt (Lit ''secret'') (Alt (Lit ''token'')
         (Cat (Lit ''api'') (Cat DotStar (Lit ''key''))))))
       (Cat DotStar (Alt (Lit ''stored'') (Alt (Lit ''saved'') (Lit ''hardcoded'')))),
      ''Credential Storage''),
     (Cat (Alt (Lit ''ssl'') (Alt (Lit ''certificate'') (Lit ''tls'')))
       (Cat DotStar (Cat (Lit ''verification'')
         (Cat DotStar (Alt (Lit ''disabled'') (Lit ''false''))))),
      ''SSL Verification Disabled''),
     (Alt (Cat (Lit ''sql'') (Cat DotStar (Lit ''injection'')))
          (Cat (Lit ''command'') (Cat DotStar (Lit ''injection''))),
      ''Injection Vulnerability''),
     (Alt (Lit ''xss'')
          (Cat (Lit ''cross'') (Cat DotStar (Cat (Lit ''site'')
            (Cat DotStar (Lit ''scripting''))))),
      ''XSS Vulnerability''),
     (Cat (Lit ''debug'') (Cat DotStar (Cat (Alt (Lit ''enabled'') (Lit ''true''))
         (Cat DotStar (Lit ''production'')))),
      ''Debug Enabled in Production''),
     (Alt (Cat (Lit ''log'') (Cat DotStar (Lit ''password'')))
          (Cat (Lit ''password'') (Cat DotStar (Lit ''log''))),
      ''Password in Logs'')]"

definition perf_patterns :: "(regex \<times> string) list" where
  "perf_patterns =
    [(Cat (Lit ''ANR'') (Cat DotStar (Lit ''application not responding'')),
      ''ANR (App Not Responding)''),
     (Alt (Lit ''jank'')
          (Alt (Cat (Lit ''frame'') (Cat DotStar (Lit ''drop'')))
               (Cat (Lit ''dropped'') (Cat DotStar (Lit ''frame'')))),
      ''Dropped Frames''),
     (Alt (Cat (Lit ''memory'') (Cat DotStar (Lit ''pressure'')))
          (Cat (Lit ''low'') (Cat DotStar (Lit ''memory''))),
      ''Memory Pressure''),
     (Alt (Lit ''OutOfMemory'') (Cat (Lit ''heap'') (Cat DotStar (Lit ''size''))),
      ''Memory Issues''),
     (Alt (Cat (Lit ''garbage'') (Cat DotStar (Lit ''collect''))) (Lit ''GC''),
      ''Garbage Collection''),
     (Alt (Cat (Lit ''disk'') (Cat DotStar (Lit ''full'')))
          (Cat (Lit ''storage'') (Cat DotStar (Lit ''full''))),
      ''Disk Full'')]"

subsection \<open>The five pattern passes\<close>

definition check_error_patterns :: "string \<Rightarrow> LogAnalyzer \<Rightarrow> LogAnalyzer" where
  "check_error_patterns line a =
     fold (\<lambda>(pattern, name) s.
             if re_search pattern line
             then s\<lparr>errors := errors s @ [\<lparr>f_type = name, f_line = strip line\<rparr>],
                    patterns := incr name (patterns s)\<rparr>
             else s)
          error_patterns a"

definition check_null_safety_issues :: "string \<Rightarrow> LogAnalyzer \<Rightarrow> LogAnalyzer" where
  "check_null_safety_issues line a =
     fold (\<lambda>pattern s.
             if re_search pattern line
             then s\<lparr>warnings := warnings s @
                      [\<lparr>f_type = ''Null Safety Issue'', f_line = strip line\<rparr>],
                    patterns := incr ''Null Safety Issue'' (patterns s)\<rparr>
             else s)
          null_patterns a"

definition check_async_errors :: "string \<Rightarrow> LogAnalyzer \<Rightarrow> LogAnalyzer" where
  "check_async_errors line a =
     fold (\<lambda>pattern s.
             if re_search pattern line
             then s\<lparr>errors := errors s @
                      [\<lparr>f_type = ''Async/Future Error'', f_line = strip line\<rparr>],
                    patterns := incr ''Async Error'' (patterns s)\<rparr>
             else s)
          async_patterns a"

definition check_security_issues :: "string \<Rightarrow> LogAnalyzer \<Rightarrow> LogAnalyzer" where
  "check_security_issues line a =
     fold (\<lambda>(pattern, issue_type) s.
             if re_search pattern line
             then s\<lparr>security_issues := security_issues s @
                      [\<lparr>f_type = issue_type, f_line = strip line\<rparr>],
                    patterns := incr (''Security: '' @ issue_type) (patterns s)\<rparr>
             else s)
          security_patterns a"

definition check_performance_issues :: "string \<Rightarrow> LogAnalyzer \<Rightarrow> LogAnalyzer" where
  "check_performance_issues line a =
     fold (\<lambda>(pattern, issue_type) s.
             if re_search pattern line
             then s\<lparr>performance_issues := performance_issues s @
                      [\<lparr>f_type = issue_type, f_line = strip line\<rparr>],
                    patterns := incr (''Performance: '' @ issue_type) (patterns s)\<rparr>
             else s)
          perf_patterns a"

subsection \<open>Stack traces\<close>

text \<open>The condition of the \<open>while\<close> loop on one following line.\<close>

definition continues_trace :: "string \<Rightarrow> bool" where
  "continues_trace l = (prefix ''at '' l \<or> prefix ''  '' l \<or> sublist ''File'' l)"

text \<open>The condition of the \<open>if\<close> that opens a trace.\<close>

definition starts_trace :: "string \<Rightarrow> bool" where
  "starts_trace l = (sublist ''at '' l \<or> (sublist ''File'' l \<and> sublist ''Line'' l))"

function trace_loop :: "string list \<Rightarrow> nat \<Rightarrow> string list \<Rightarrow> string list" where
  "trace_loop all_lines i trace =
     (if i < length all_lines \<and> continues_trace (all_lines ! i)
      then trace_loop all_lines (i + 1) (trace @ [all_lines ! i])
      else trace)"
  by pat_completeness auto
termination
  by (relation "measure (\<lambda>(all_lines, i, trace). length all_lines - i)") auto

declare trace_loop.simps [simp del]

definition check_stack_traces ::
  "string \<Rightarrow> nat \<Rightarrow> string list \<Rightarrow> LogAnalyzer \<Rightarrow> LogAnalyzer" where
  "check_stack_traces line index all_lines a =
     (if starts_trace line
      then (let trace = trace_loop all_lines (index + 1) [line]
            in if length trace > 1
               then a\<lparr>stack_traces := stack_traces a @ [join_nl trace]\<rparr>
               else a)
      else a)"

subsection \<open>Lines and inputs\<close>

definition process_line ::
  "string \<Rightarrow> nat \<Rightarrow> string list \<Rightarrow> LogAnalyzer \<Rightarrow> LogAnalyzer" where
  "process_line line index all_lines a =
     (if strip line = [] then a
      else check_stack_traces line index all_lines
             (check_performance_issues line
               (check_security_issues line
                 (check_async_errors line
                   (check_null_safety_issues line
                     (check_error_patterns line a))))))"

text \<open>
  The loop \<open>for i, line in enumerate(lines)\<close> of \<open>analyze_file\<close>, on the lines the file's
  text splits into.
\<close>

definition analyze_lines :: "string list \<Rightarrow> LogAnalyzer \<Rightarrow> LogAnalyzer" where
  "analyze_lines lines a =
     fold (\<lambda>(i, line) s. process_line line i lines s) (enumerate 0 lines) a"

text \<open>
  \<open>analyze_stdin\<close>: \<open>lines\<close> is what \<open>sys.stdin.readlines()\<close> returned; every line is
  stripped before it is processed, the lookahead reads the unstripped lines.
\<close>

definition analyze_stdin :: "string list \<Rightarrow> LogAnalyzer \<Rightarrow> LogAnalyzer" where
  "analyze_stdin lines a =
     fold (\<lambda>(i, line) s. process_line (strip line) i lines s) (enumerate 0 lines) a"

subsection \<open>The passes in another order\<close>

text \<open>
  \<open>process_line\<close> runs the five passes in one fixed order. To compare it with other
  orders, the passes are named and \<open>process_line_with\<close> runs them in a given order,
  followed by the stack-trace check as in the source.
\<close>

datatype pass = ErrorPass | NullSafetyPass | AsyncPass | SecurityPass | PerformancePass

fun run_pass :: "pass \<Rightarrow> string \<Rightarrow> LogAnalyzer \<Rightarrow> LogAnalyzer" where
  "run_pass ErrorPass line a = check_error_patterns line a"
| "run_pass NullSafetyPass line a = check_null_safety_issues line a"
| "run_pass AsyncPass line a = check_async_errors line a"
| "run_pass SecurityPass line a = check_security_issues line a"
| "run_pass PerformancePass line a = check_performance_issues line a"

definition source_order :: "pass list" where
  "source_order = [ErrorPass, NullSafetyPass, AsyncPass, SecurityPass, PerformancePass]"

definition process_line_with ::
  "pass list \<Rightarrow> string \<Rightarrow> nat \<Rightarrow> string list \<Rightarrow> LogAnalyzer \<Rightarrow> LogAnalyzer" where
  "process_line_with order line index all_lines a =
     (if strip line = [] then a
      else check_stack_traces line index all_lines (fold (\<lambda>p. run_pass p line) order a))"

text \<open>\<open>order i\<close> is the order of the passes on the line at index \<open>i\<close>.\<close>

definition analyze_lines_with ::
  "(nat \<Rightarrow> pass list) \<Rightarrow> string list \<Rightarrow> LogAnalyzer \<Rightarrow> LogAnalyzer" where
  "analyze_lines_with order lines a =
     fold (\<lambda>(i, line) s. process_line_with (order i) line i lines s) (enumerate 0 lines) a"

definition is_pass_order :: "pass list \<Rightarrow> bool" where
  "is_pass_order ps = (mset ps = mset source_order)"

text \<open>Among the two passes that append to \<open>errors\<close>, the error pass comes first.\<close>

definition error_before_async :: "pass list \<Rightarrow> bool" where
  "error_before_async ps =
     (filter (\<lambda>p. p = ErrorPass \<or> p = AsyncPass) ps = [ErrorPass, AsyncPass])"

section \<open>The report\<close>

datatype error = FileNotFoundError | OSError | AttributeError string

text \<open>
  Attribute lookup on the analyzer object: the instance dictionary that \<open>__init__\<close>
  fills, then the methods of the class. No method assigns any other attribute. The
  names every object inherits (\<open>__class__\<close>, \<open>__dict__\<close>, ...) are not listed; the
  program reads none of them.
\<close>

datatype attr =
    FindingsAttr "Finding list"
  | TracesAttr "string list"
  | CountsAttr "(string \<times> nat) list"
  | MethodAttr

definition instance_dict :: "LogAnalyzer \<Rightarrow> (string \<times> attr) list" where
  "instance_dict a =
    [(''errors'', FindingsAttr (errors a)),
     (''warnings'', FindingsAttr (warnings a)),
     (''stack_traces'', TracesAttr (stack_traces a)),
     (''patterns'', CountsAttr (patterns a)),
     (''security_issues'', FindingsAttr (security_issues a)),
     (''performance_issues'', FindingsAttr (performance_issues a))]"

definition class_methods :: "string list" where
  "class_methods =
    [''__init__'', ''analyze_file'', ''analyze_stdin'', ''_process_line'',
     ''_check_error_patterns'', ''_check_null_safety_issues'', ''_check_async_errors'',
     ''_check_security_issues'', ''_check_performance_issues'', ''_check_stack_traces'',
     ''print_report'']"

definition getattr :: "LogAnalyzer \<Rightarrow> string \<Rightarrow> error + attr" where
  "getattr a name =
     (case map_of (instance_dict a) name of
        Some v \<Rightarrow> Inr v
      | None \<Rightarrow> if name \<in> set class_methods then Inr MethodAttr
                else Inl (AttributeError name))"

fun truthy :: "attr \<Rightarrow> bool" where
  "truthy (FindingsAttr xs) = (xs \<noteq> [])"
| "truthy (TracesAttr xs) = (xs \<noteq> [])"
| "truthy (CountsAttr m) = (m \<noteq> [])"
| "truthy MethodAttr = True"

text \<open>
  Standard output is the list of the strings printed, one per call of \<open>print\<close>. The
  bullet U+2022 of the pattern table is outside the character range of the model and is
  written as its three UTF-8 bytes.
\<close>

definition bullet :: string where
  "bullet = [char_of (226::nat), char_of (128::nat), char_of (162::nat)]"

definition rule_eq :: string where
  "rule_eq = replicate 60 (CHR ''='')"

definition rule_dash :: string where
  "rule_dash = replicate 60 (CHR ''-'')"

text \<open>\<open>sorted(items, key=lambda x: x[1], reverse=True)\<close>: stable, largest count first.\<close>

definition sorted_desc :: "(string \<times> nat) list \<Rightarrow> (string \<times> nat) list" where
  "sorted_desc items = rev (sort_key snd (rev items))"

definition report_patterns :: "LogAnalyzer \<Rightarrow> string list" where
  "report_patterns a =
     (if patterns a \<noteq> []
      then [''ERROR PATTERNS DETECTED:'', rule_dash] @
           map (\<lambda>(pattern, count).
                  ''  '' @ bullet @ '' '' @ pattern @ '': '' @ str_nat count @ '' occurrence(s)'')
               (sorted_desc (patterns a)) @
           [[]]
      else [])"

text \<open>
  The three numbered listings (critical errors, security issues, performance issues)
  have one shape: a title, the first \<open>limit\<close> findings, and the count of the rest.
\<close>

definition report_findings :: "string \<Rightarrow> nat \<Rightarrow> Finding list \<Rightarrow> string list" where
  "report_findings title limit fs =
     (if fs \<noteq> []
      then [title, rule_dash] @
           concat (map (\<lambda>(i, f). [''  '' @ str_nat i @ ''. ['' @ f_type f @ '']'',
                                   ''     '' @ take 80 (f_line f) @ ''...''])
                       (enumerate 1 (take limit fs))) @
           (if length fs > limit
            then [''  ... and '' @ str_nat (length fs - limit) @ '' more''] else []) @
           [[]]
      else [])"

definition report_traces :: "LogAnalyzer \<Rightarrow> string list" where
  "report_traces a =
     (if stack_traces a \<noteq> []
      then [''STACK TRACES:'', rule_dash] @
           concat (map (\<lambda>(i, trace).
                          [newline # ''Trace '' @ str_nat i @ '':'',
                           take 500 trace @ (if length trace > 500 then ''...'' else [])])
                       (enumerate 1 (take 3 (stack_traces a)))) @
           (if length (stack_traces a) > 3
            then [newline # ''... and '' @ str_nat (length (stack_traces a) - 3) @
                  '' more stack traces''] else []) @
           [[]]
      else [])"

definition report_body :: "LogAnalyzer \<Rightarrow> string list" where
  "report_body a =
     [newline # rule_eq, ''FLUTTER LOG ANALYSIS REPORT'', rule_eq @ [newline],
      ''Total Issues Found: '' @ str_nat (length (errors a) + length (warnings a)),
      ''  - Critical Errors: '' @ str_nat (length (errors a)),
      ''  - Warnings: '' @ str_nat (length (warnings a)),
      ''  - Security Issues: '' @ str_nat (length (security_issues a)),
      ''  - Performance Issues: '' @ str_nat (length (performance_issues a)),
      []] @
     report_patterns a @
     report_findings ''CRITICAL ERRORS:'' 10 (errors a) @
     report_findings ''SECURITY ISSUES:'' 10 (security_issues a) @
     report_findings ''PERFORMANCE ISSUES:'' 5 (performance_issues a) @
     report_traces a"

text \<open>
  \<open>print_report\<close> returns what it printed and how it ended: \<open>Inr ()\<close> when it returned,
  \<open>Inl e\<close> when the exception \<open>e\<close> left it. The recommendations read the attributes
  \<open>errors\<close>, \<open>async_errors\<close>, \<open>security_issues\<close> and \<open>performance_issues\<close> in turn.
\<close>

definition print_report :: "LogAnalyzer \<Rightarrow> string list \<times> (error + unit)" where
  "print_report a =
     (let out = report_body a @ [rule_eq, ''RECOMMENDATIONS:'', rule_dash] @
                (if errors a \<noteq> []
                 then [''  1. Address critical errors immediately (NullPointerException, etc.)'']
                 else [])
      in case getattr a ''async_errors'' of
           Inl e \<Rightarrow> (out, Inl e)
         | Inr v \<Rightarrow>
             (out @
              (if truthy v
               then [''  2. Review async/await code for proper error handling''] else []) @
              (if security_issues a \<noteq> []
               then [''  3. Address security issues before release''] else []) @
              (if performance_issues a \<noteq> []
               then [''  4. Investigate performance issues (ANRs, memory usage)''] else []) @
              [''  5. Run 'flutter doctor -v' to verify environment'', rule_eq @ [newline]],
              Inr ()))"

section \<open>The program\<close>

text \<open>
  \<open>analyze_file\<close> gets the outcome of opening and reading the file: the decoded text, or
  the exception of \<open>open\<close>. Only \<open>FileNotFoundError\<close> is caught. The result is the text
  printed and either the exception that escapes or the returned flag with the analyzer.
\<close>

definition analyze_file ::
  "string \<Rightarrow> error + string \<Rightarrow> LogAnalyzer \<Rightarrow> string list \<times> (error + bool \<times> LogAnalyzer)" where
  "analyze_file filepath opened a =
     (case opened of
        Inl FileNotFoundError \<Rightarrow> ([''Error: File not found: '' @ filepath], Inr (False, a))
      | Inl e \<Rightarrow> ([], Inl e)
      | Inr content \<Rightarrow> ([], Inr (True, analyze_lines (split_nl content) a)))"

text \<open>How \<open>main()\<close> ends, and the exit status the interpreter gives the process for it.\<close>

datatype outcome = Returned | SysExit nat | Uncaught error

fun exit_status :: "outcome \<Rightarrow> nat" where
  "exit_status Returned = 0"
| "exit_status (SysExit n) = n"
| "exit_status (Uncaught e) = 1"

text \<open>The end of \<open>main\<close>, from \<open>analyzer.print_report()\<close> on.\<close>

definition report_and_exit :: "LogAnalyzer \<Rightarrow> string list \<times> outcome" where
  "report_and_exit a =
     (case print_report a of
        (out, Inl e) \<Rightarrow> (out, Uncaught e)
      | (out, Inr u) \<Rightarrow>
          (out, if errors a \<noteq> [] \<or> security_issues a \<noteq> [] then SysExit 1 else Returned))"

text \<open>
  \<open>main\<close>: \<open>argv\<close> is \<open>sys.argv\<close>, \<open>fs\<close> gives the outcome of opening and reading a path,
  \<open>stdin\<close> is what \<open>sys.stdin.readlines()\<close> returns.
\<close>

definition main ::
  "string list \<Rightarrow> (string \<Rightarrow> error + string) \<Rightarrow> string list \<Rightarrow> string list \<times> outcome" where
  "main argv fs stdin =
     (if length argv < 2
      then (let (out, r) = report_and_exit (analyze_stdin stdin init)
            in (''Reading logs from stdin (Ctrl+D to end)...'' # out, r))
      else (let logfile = argv ! 1
            in case analyze_file logfile (fs logfile) init of
                 (out, Inl e) \<Rightarrow> (out, Uncaught e)
               | (out, Inr (ok, analyzer)) \<Rightarrow>
                   if \<not> ok then (out, SysExit 1)
                   else (let (out', r) = report_and_exit analyzer in (out @ out', r))))"

section \<open>Analyzer objects on a heap\<close>

text \<open>
  In the program the six attributes of an analyzer are references to mutable objects,
  five lists and a \<open>defaultdict\<close>, and the methods change these objects in place with
  \<open>append\<close> and \<open>+= 1\<close>. The heap holds the objects of one process by kind; an address is
  an index. An analyzer object is the record of its six references: after \<open>__init__\<close> no
  method binds an attribute again. The program has no module-level or class-level
  variable, so the heap has no other entry point.
\<close>

record heap =
  finding_lists :: "Finding list list"
  string_lists :: "string list list"
  dicts :: "(string \<times> nat) list list"

record analyzer_obj =
  errors_ref :: nat
  warnings_ref :: nat
  stack_traces_ref :: nat
  patterns_ref :: nat
  security_issues_ref :: nat
  performance_issues_ref :: nat

text \<open>
  \<open>LogAnalyzer()\<close>: \<open>__init__\<close> binds every attribute to a new empty object.
\<close>

definition new_analyzer :: "heap \<Rightarrow> analyzer_obj \<times> heap" where
  "new_analyzer h =
     (let n = length (finding_lists h)
      in (\<lparr>errors_ref = n, warnings_ref = n + 1,
           stack_traces_ref = length (string_lists h),
           patterns_ref = length (dicts h),
           security_issues_ref = n + 2, performance_issues_ref = n + 3\<rparr>,
          h\<lparr>finding_lists := finding_lists h @ [[], [], [], []],
            string_lists := string_lists h @ [[]],
            dicts := dicts h @ [[]]\<rparr>))"

text \<open>\<open>xs.append(x)\<close> and \<open>d[k] += 1\<close> on the object at an address.\<close>

definition append_finding :: "nat \<Rightarrow> Finding \<Rightarrow> heap \<Rightarrow> heap" where
  "append_finding r f h =
     h\<lparr>finding_lists := (finding_lists h)[r := finding_lists h ! r @ [f]]\<rparr>"

definition append_string :: "nat \<Rightarrow> string \<Rightarrow> heap \<Rightarrow> heap" where
  "append_string r s h =
     h\<lparr>string_lists := (string_lists h)[r := string_lists h ! r @ [s]]\<rparr>"

definition incr_at :: "nat \<Rightarrow> string \<Rightarrow> heap \<Rightarrow> heap" where
  "incr_at r k h = h\<lparr>dicts := (dicts h)[r := incr k (dicts h ! r)]\<rparr>"

text \<open>The methods, acting on the heap through the references of \<open>self\<close>.\<close>

definition check_error_patterns_h :: "analyzer_obj \<Rightarrow> string \<Rightarrow> heap \<Rightarrow> heap" where
  "check_error_patterns_h self line h =
     fold (\<lambda>(pattern, name) g.
             if re_search pattern line
             then incr_at (patterns_ref self) name
                    (append_finding (errors_ref self)
                       \<lparr>f_type = name, f_line = strip line\<rparr> g)
             else g)
          error_patterns h"

definition check_null_safety_issues_h :: "analyzer_obj \<Rightarrow> string \<Rightarrow> heap \<Rightarrow> heap" where
  "check_null_safety_issues_h self line h =
     fold (\<lambda>pattern g.
             if re_search pattern line
             then incr_at (patterns_ref self) ''Null Safety Issue''
                    (append_finding (warnings_ref self)
                       \<lparr>f_type = ''Null Safety Issue'', f_line = strip line\<rparr> g)
             else g)
          null_patterns h"

definition check_async_errors_h :: "analyzer_obj \<Rightarrow> string \<Rightarrow> heap \<Rightarrow> heap" where
  "check_async_errors_h self line h =
     fold (\<lambda>pattern g.
             if re_search pattern line
             then incr_at (patterns_ref self) ''Async Error''
                    (append_finding (errors_ref self)
                       \<lparr>f_type = ''Async/Future Error'', f_line = strip line\<rparr> g)
             else g)
          async_patterns h"

definition check_security_issues_h :: "analyzer_obj \<Rightarrow> string \<Rightarrow> heap \<Rightarrow> heap" where
  "check_security_issues_h self line h =
     fold (\<lambda>(pattern, issue_type) g.
             if re_search pattern line
             then incr_at (patterns_ref self) (''Security: '' @ issue_type)
                    (append_finding (security_issues_ref self)
                       \<lparr>f_type = issue_type, f_line = strip line\<rparr> g)
             else g)
          security_patterns h"

definition check_performance_issues_h :: "analyzer_obj \<Rightarrow> string \<Rightarrow> heap \<Rightarrow> heap" where
  "check_performance_issues_h self line h =
     fold (\<lambda>(pattern, issue_type) g.
             if re_search pattern line
             then incr_at (patterns_ref self) (''Performance: '' @ issue_type)
                    (append_finding (performance_issues_ref self)
                       \<lparr>f_type = issue_type, f_line = strip line\<rparr> g)
             else g)
          perf_patterns h"

definition check_stack_traces_h ::
  "analyzer_obj \<Rightarrow> string \<Rightarrow> nat \<Rightarrow> string list \<Rightarrow> heap \<Rightarrow> heap" where
  "check_stack_traces_h self line index all_lines h =
     (if starts_trace line
      then (let trace = trace_loop all_lines (index + 1) [line]
            in if length trace > 1
               then append_string (stack_traces_ref self) (join_nl trace) h
               else h)
      else h)"

definition process_line_h ::
  "analyzer_obj \<Rightarrow> string \<Rightarrow> nat \<Rightarrow> string list \<Rightarrow> heap \<Rightarrow> heap" where
  "process_line_h self line index all_lines h =
     (if strip line = [] then h
      else check_stack_traces_h self line index all_lines
             (check_performance_issues_h self line
               (check_security_issues_h self line
                 (check_async_errors_h self line
                   (check_null_safety_issues_h self line
                     (check_error_patterns_h self line h))))))"

definition analyze_lines_h :: "analyzer_obj \<Rightarrow> string list \<Rightarrow> heap \<Rightarrow> heap" where
  "analyze_lines_h self lines h =
     fold (\<lambda>(i, line) g. process_line_h self line i lines g) (enumerate 0 lines) h"

text \<open>
  One invocation, as in \<open>main\<close>: construct the analyzer, then analyze the lines.
\<close>

definition invoke :: "string list \<Rightarrow> heap \<Rightarrow> analyzer_obj \<times> heap" where
  "invoke lines h =
     (let (self, h1) = new_analyzer h in (self, analyze_lines_h self lines h1))"

text \<open>The contents of an analyzer's six objects: what the report is printed from.\<close>

definition report_of :: "analyzer_obj \<Rightarrow> heap \<Rightarrow> LogAnalyzer" where
  "report_of self h =
     \<lparr>errors = finding_lists h ! errors_ref self,
      warnings = finding_lists h ! warnings_ref self,
      stack_traces = string_lists h ! stack_traces_ref self,
      patterns = dicts h ! patterns_ref self,
      security_issues = finding_lists h ! security_issues_ref self,
      performance_issues = finding_lists h ! performance_issues_ref self\<rparr>"

section \<open>Quantities used in the statements\<close>

text \<open>
  What one pass adds for one line: \<open>matched\<close> lists the labels of the patterns of a
  labelled catalog that match, \<open>nmatched\<close> counts the matching patterns of an unlabelled
  one, \<open>pass_findings\<close> are the findings the pass appends and \<open>pass_keys\<close> the
  counters it increments, both in order.
\<close>

definition matched :: "(regex \<times> string) list \<Rightarrow> string \<Rightarrow> string list" where
  "matched ps line = map snd (filter (\<lambda>(p, n). re_search p line) ps)"

definition nmatched :: "regex list \<Rightarrow> string \<Rightarrow> nat" where
  "nmatched ps line = length (filter (\<lambda>p. re_search p line) ps)"

definition mk :: "string \<Rightarrow> string \<Rightarrow> Finding" where
  "mk line t = \<lparr>f_type = t, f_line = strip line\<rparr>"

fun pass_keys :: "pass \<Rightarrow> string \<Rightarrow> string list" where
  "pass_keys ErrorPass line = matched error_patterns line"
| "pass_keys NullSafetyPass line = replicate (nmatched null_patterns line) ''Null Safety Issue''"
| "pass_keys AsyncPass line = replicate (nmatched async_patterns line) ''Async Error''"
| "pass_keys SecurityPass line = map ((@) ''Security: '') (matched security_patterns line)"
| "pass_keys PerformancePass line = map ((@) ''Performance: '') (matched perf_patterns line)"

fun pass_findings :: "pass \<Rightarrow> string \<Rightarrow> Finding list" where
  "pass_findings ErrorPass line = map (mk line) (matched error_patterns line)"
| "pass_findings NullSafetyPass line = replicate (nmatched null_patterns line) (mk line ''Null Safety Issue'')"
| "pass_findings AsyncPass line = replicate (nmatched async_patterns line) (mk line ''Async/Future Error'')"
| "pass_findings SecurityPass line = map (mk line) (matched security_patterns line)"
| "pass_findings PerformancePass line = map (mk line) (matched perf_patterns line)"

text \<open>
  A regular expression is \<open>solid\<close> when each of its matches contains a character that
  is not white space.
\<close>

fun solid :: "regex \<Rightarrow> bool" where
  "solid (Lit p) = list_ex (\<lambda>c. \<not> isspace (lower_char c)) p"
| "solid DotStar = False"
| "solid (Alt r1 r2) = (solid r1 \<and> solid r2)"
| "solid (Cat r1 r2) = (solid r1 \<or> solid r2)"

text \<open>
  The number of findings in the four lists, and the sum of the counters.
\<close>

definition findings_total :: "LogAnalyzer \<Rightarrow> nat" where
  "findings_total a = length (errors a) + length (warnings a)
     + length (security_issues a) + length (performance_issues a)"

definition counts_total :: "LogAnalyzer \<Rightarrow> nat" where
  "counts_total a = sum_list (map snd (patterns a))"

text \<open>
  Stack-trace blocks by position. A block starts at index \<open>i\<close> when line \<open>i\<close> is not
  blank, opens a trace and is followed by a continuation line; it ends before
  \<open>block_end lines i\<close>, the first index after \<open>i\<close> that is no continuation line.
  \<open>span_text lines (i, j)\<close> joins the lines from \<open>i\<close> up to \<open>j\<close>, \<open>j\<close> excluded.
\<close>

definition block_end :: "string list \<Rightarrow> nat \<Rightarrow> nat" where
  "block_end lines i = i + 1 + length (takeWhile continues_trace (drop (i + 1) lines))"

definition records_trace :: "string list \<Rightarrow> nat \<Rightarrow> bool" where
  "records_trace lines i =
     (strip (lines ! i) \<noteq> [] \<and> starts_trace (lines ! i) \<and>
      i + 1 < length lines \<and> continues_trace (lines ! (i + 1)))"

definition trace_spans :: "string list \<Rightarrow> (nat \<times> nat) list" where
  "trace_spans lines =
     map (\<lambda>i. (i, block_end lines i)) (filter (records_trace lines) [0..<length lines])"

definition span_text :: "string list \<Rightarrow> nat \<times> nat \<Rightarrow> string" where
  "span_text lines = (\<lambda>(i, j). join_nl (take (j - i) (drop i lines)))"

text \<open>
  Two analyzers that agree on everything but the order of \<open>errors\<close> and the insertion
  order of the counters.
\<close>

definition same_but_errors :: "LogAnalyzer \<Rightarrow> LogAnalyzer \<Rightarrow> bool" where
  "same_but_errors a b =
     (warnings a = warnings b \<and> security_issues a = security_issues b \<and>
      performance_issues a = performance_issues b \<and> stack_traces a = stack_traces b \<and>
      (\<forall>k. count_of (patterns a) k = count_of (patterns b) k) \<and>
      fst ` set (patterns a) = fst ` set (patterns b) \<and>
      mset (errors a) = mset (errors b))"

text \<open>
  Inputs of the worked examples: the trace of the specification, a trace whose
  continuation lines open traces of their own, and two orders of the passes.
\<close>

definition example_trace :: "string list" where
  "example_trace = [''Exception foo'', ''  at bar()'', ''  at baz()'', ''next unrelated'']"

definition overlap_trace :: "string list" where
  "overlap_trace = [''at a'', ''  at b'', ''  at c'']"

definition swapped_order :: "pass list" where
  "swapped_order = [AsyncPass, NullSafetyPass, ErrorPass, SecurityPass, PerformancePass]"

definition shuffled_order :: "pass list" where
  "shuffled_order = [PerformancePass, ErrorPass, SecurityPass, AsyncPass, NullSafetyPass]"

text \<open>
  For the heap: the list addresses of an analyzer, an analyzer whose references are
  distinct and allocated, a heap change that leaves the objects of every other address
  alone, and a heap function that acts on the contents of an analyzer as a function of
  the analyzer record does, touching nothing else.
\<close>

definition list_refs :: "analyzer_obj \<Rightarrow> nat set" where
  "list_refs self =
     {errors_ref self, warnings_ref self, security_issues_ref self,
      performance_issues_ref self}"

definition allocated :: "analyzer_obj \<Rightarrow> heap \<Rightarrow> bool" where
  "allocated self h =
     (distinct [errors_ref self, warnings_ref self, security_issues_ref self,
                performance_issues_ref self] \<and>
      (\<forall>r \<in> list_refs self. r < length (finding_lists h)) \<and>
      stack_traces_ref self < length (string_lists h) \<and>
      patterns_ref self < length (dicts h))"

definition frame :: "analyzer_obj \<Rightarrow> heap \<Rightarrow> heap \<Rightarrow> bool" where
  "frame self h h' =
     (length (finding_lists h') = length (finding_lists h) \<and>
      length (string_lists h') = length (string_lists h) \<and>
      length (dicts h') = length (dicts h) \<and>
      (\<forall>r. r \<notin> list_refs self \<longrightarrow> finding_lists h' ! r = finding_lists h ! r) \<and>
      (\<forall>r. r \<noteq> stack_traces_ref self \<longrightarrow> string_lists h' ! r = string_lists h ! r) \<and>
      (\<forall>r. r \<noteq> patterns_ref self \<longrightarrow> dicts h' ! r = dicts h ! r))"

definition refines ::
  "analyzer_obj \<Rightarrow> (heap \<Rightarrow> heap) \<Rightarrow> (LogAnalyzer \<Rightarrow> LogAnalyzer) \<Rightarrow> bool" where
  "refines self fh fp =
     (\<forall>h. allocated self h \<longrightarrow>
          report_of self (fh h) = fp (report_of self h) \<and> frame self h (fh h))"

section \<open>Strings and regular expressions\<close>

lemma strip_Nil_iff: "strip s = [] \<longleftrightarrow> (\<forall>c \<in> set s. isspace c)"
proof
  assume "strip s = []"
  then have all: "\<forall>x \<in> set (dropWhile isspace s). isspace x"
    by (simp add: strip_def dropWhile_eq_Nil_conv)
  have "dropWhile isspace s = []"
  proof (rule ccontr)
    assume ne: "dropWhile isspace s \<noteq> []"
    then have "\<not> isspace (hd (dropWhile isspace s))"
      by (rule hd_dropWhile)
    moreover from ne have "hd (dropWhile isspace s) \<in> set (dropWhile isspace s)"
      by simp
    ultimately show False using all by blast
  qed
  then show "\<forall>c \<in> set s. isspace c"
    by (simp add: dropWhile_eq_Nil_conv)
next
  assume "\<forall>c \<in> set s. isspace c"
  then have "dropWhile isspace s = []"
    by (simp add: dropWhile_eq_Nil_conv)
  then show "strip s = []"
    unfolding strip_def by (simp only: rev.simps dropWhile.simps)
qed

lemma isspace_lower_char: "isspace c \<Longrightarrow> lower_char c = c"
  by (auto simp: isspace_def lower_char_def Let_def)

lemma lower_char_not_space:
  assumes "lower_char c = d" "\<not> isspace d"
  shows "\<not> isspace c"
  using assms isspace_lower_char by force

lemma rmatch_Lit_iff: "rmatch (Lit p) s \<noteq> [] \<longleftrightarrow> prefix (lower p) (lower s)"
proof -
  have "lower (take (length p) s) = lower p \<longleftrightarrow> prefix (lower p) (lower s)"
    unfolding lower_def prefix_def
    by (metis append_eq_conv_conj length_map take_map)
  then show ?thesis by simp
qed

lemma re_search_Lit: "re_search (Lit p) s \<longleftrightarrow> sublist (lower p) (lower s)"
proof (induction s)
  case Nil
  have "rmatch (Lit p) [] \<noteq> [] \<longleftrightarrow> prefix (lower p) (lower [])"
    by (rule rmatch_Lit_iff)
  then show ?case by (simp add: lower_def)
next
  case (Cons c cs)
  have "rmatch (Lit p) (c # cs) \<noteq> [] \<longleftrightarrow> prefix (lower p) (lower (c # cs))"
    by (rule rmatch_Lit_iff)
  with Cons show ?case
    by (simp add: lower_def sublist_Cons_right del: rmatch.simps)
qed

lemma re_search_Alt: "re_search (Alt r1 r2) s \<longleftrightarrow> re_search r1 s \<or> re_search r2 s"
  by (induction s) auto

lemma dotstar_rests_suffix: "u \<in> set (dotstar_rests s) \<Longrightarrow> suffix u s"
  by (induction s) (auto simp: suffix_Cons split: if_splits)

lemma rmatch_suffix: "u \<in> set (rmatch r s) \<Longrightarrow> suffix u s"
proof (induction r arbitrary: s u)
  case (Lit p)
  then show ?case by (auto simp: suffix_drop split: if_splits)
next
  case DotStar
  then show ?case by (simp add: dotstar_rests_suffix)
next
  case (Alt r1 r2)
  then show ?case by auto
next
  case (Cat r1 r2)
  then obtain v where "v \<in> set (rmatch r1 s)" "u \<in> set (rmatch r2 v)" by auto
  with Cat.IH show ?case using suffix_order.trans by blast
qed

lemma rmatch_solid:
  "solid r \<Longrightarrow> u \<in> set (rmatch r s) \<Longrightarrow> \<exists>c \<in> set s. \<not> isspace c"
proof (induction r arbitrary: s u)
  case (Lit p)
  from Lit.prems(2) have eq: "lower (take (length p) s) = lower p"
    by (auto split: if_splits)
  from Lit.prems(1) obtain c where c: "c \<in> set p" "\<not> isspace (lower_char c)"
    by (auto simp: list_ex_iff)
  then have "lower_char c \<in> set (lower (take (length p) s))"
    unfolding eq by (simp add: lower_def)
  then obtain c' where c': "c' \<in> set (take (length p) s)" "lower_char c' = lower_char c"
    by (auto simp: lower_def)
  from c' c(2) have "\<not> isspace c'"
    using lower_char_not_space by blast
  moreover from c'(1) have "c' \<in> set s"
    by (rule in_set_takeD)
  ultimately show ?case by blast
next
  case DotStar
  then show ?case by simp
next
  case (Alt r1 r2)
  then show ?case by auto
next
  case (Cat r1 r2)
  from Cat.prems(2) obtain v where v: "v \<in> set (rmatch r1 s)" "u \<in> set (rmatch r2 v)"
    by auto
  show ?case
  proof (cases "solid r1")
    case True
    with Cat.IH(1) v(1) show ?thesis by blast
  next
    case False
    with Cat.prems(1) have "solid r2" by simp
    with Cat.IH(2) v(2) obtain c where "c \<in> set v" "\<not> isspace c" by blast
    moreover from v(1) have "suffix v s" by (rule rmatch_suffix)
    ultimately show ?thesis using set_mono_suffix by blast
  qed
qed

lemma re_search_solid:
  "solid r \<Longrightarrow> re_search r s \<Longrightarrow> strip s \<noteq> []"
proof (induction s)
  case Nil
  then obtain u where "u \<in> set (rmatch r [])" by (cases "rmatch r []") auto
  with Nil(1) show ?case using rmatch_solid by fastforce
next
  case (Cons c cs)
  show ?case
  proof (cases "rmatch r (c # cs) \<noteq> []")
    case True
    then obtain u where "u \<in> set (rmatch r (c # cs))" by (cases "rmatch r (c # cs)") auto
    with Cons.prems(1) have "\<exists>x \<in> set (c # cs). \<not> isspace x" by (rule rmatch_solid)
    then show ?thesis by (simp only: strip_Nil_iff) blast
  next
    case False
    with Cons have "strip cs \<noteq> []" by simp
    then show ?thesis by (auto simp: strip_Nil_iff)
  qed
qed

lemma solid_error_patterns: "(r, n) \<in> set error_patterns \<Longrightarrow> solid r"
  by (auto simp: error_patterns_def isspace_def lower_char_def)

lemma solid_perf_patterns: "(r, n) \<in> set perf_patterns \<Longrightarrow> solid r"
  by (auto simp: perf_patterns_def isspace_def lower_char_def)

lemma lower_literals:
  "lower ''NullPointerException'' = ''nullpointerexception''"
  "lower ''GC'' = ''gc''"
  by code_simp+

section \<open>The counters\<close>

lemma count_of_incr: "count_of (incr k m) k' = count_of m k' + (if k = k' then 1 else 0)"
  by (induction k m rule: incr.induct) (auto simp: count_of_def)

lemma count_of_fold_incr: "count_of (fold incr ks m) k = count_of m k + count_list ks k"
  by (induction ks arbitrary: m) (auto simp: count_of_incr)

lemma keys_incr: "fst ` set (incr k m) = insert k (fst ` set m)"
  by (induction k m rule: incr.induct) auto

lemma keys_fold_incr: "fst ` set (fold incr ks m) = set ks \<union> fst ` set m"
  by (induction ks arbitrary: m) (simp_all add: keys_incr)

lemma sum_incr: "sum_list (map snd (incr k m)) = Suc (sum_list (map snd m))"
  by (induction k m rule: incr.induct) auto

lemma sum_fold_incr: "sum_list (map snd (fold incr ks m)) = sum_list (map snd m) + length ks"
  by (induction ks arbitrary: m) (auto simp: sum_incr)

lemma distinct_keys_incr: "distinct (map fst m) \<Longrightarrow> distinct (map fst (incr k m))"
proof (induction k m rule: incr.induct)
  case (1 k)
  then show ?case by simp
next
  case (2 k k' n m)
  have "fst ` set (incr k m) = insert k (fst ` set m)"
    by (rule keys_incr)
  with 2 show ?case by auto
qed

lemma count_list_matched:
  assumes "distinct (map snd ps)" "(r, n) \<in> set ps"
  shows "count_list (matched ps line) n = (if re_search r line then 1 else 0)"
  using assms
proof (induction ps)
  case Nil
  then show ?case by simp
next
  case (Cons x ps)
  obtain r' n' where x: "x = (r', n')" by (cases x)
  show ?case
  proof (cases "(r, n) \<in> set ps")
    case True
    with Cons x have "n' \<noteq> n" by force
    with Cons True x show ?thesis by (simp add: matched_def)
  next
    case False
    with Cons x have eq: "r' = r" "n' = n" by auto
    from Cons x eq have "n \<notin> snd ` set ps" by auto
    then have "count_list (matched ps line) n = 0"
      by (auto simp: matched_def count_list_0_iff)
    with x eq show ?thesis by (simp add: matched_def)
  qed
qed

section \<open>The passes in closed form\<close>

lemma fold_named_errors:
  "fold (\<lambda>(pattern, name) s.
           if re_search pattern line
           then s\<lparr>errors := errors s @ [\<lparr>f_type = name, f_line = strip line\<rparr>],
                  patterns := incr name (patterns s)\<rparr>
           else s) ps a
   = a\<lparr>errors := errors a @ map (mk line) (matched ps line),
        patterns := fold incr (matched ps line) (patterns a)\<rparr>"
  by (induction ps arbitrary: a) (auto simp: matched_def mk_def)

lemma check_error_patterns_eq:
  "check_error_patterns line a
   = a\<lparr>errors := errors a @ pass_findings ErrorPass line,
        patterns := fold incr (pass_keys ErrorPass line) (patterns a)\<rparr>"
  by (simp add: check_error_patterns_def fold_named_errors)

lemma fold_security:
  "fold (\<lambda>(pattern, issue_type) s.
           if re_search pattern line
           then s\<lparr>security_issues := security_issues s @ [\<lparr>f_type = issue_type, f_line = strip line\<rparr>],
                  patterns := incr (''Security: '' @ issue_type) (patterns s)\<rparr>
           else s) ps a
   = a\<lparr>security_issues := security_issues a @ map (mk line) (matched ps line),
        patterns := fold incr (map ((@) ''Security: '') (matched ps line)) (patterns a)\<rparr>"
  by (induction ps arbitrary: a) (auto simp: matched_def mk_def)

lemma check_security_issues_eq:
  "check_security_issues line a
   = a\<lparr>security_issues := security_issues a @ pass_findings SecurityPass line,
        patterns := fold incr (pass_keys SecurityPass line) (patterns a)\<rparr>"
  by (simp add: check_security_issues_def fold_security)

lemma fold_performance:
  "fold (\<lambda>(pattern, issue_type) s.
           if re_search pattern line
           then s\<lparr>performance_issues := performance_issues s @ [\<lparr>f_type = issue_type, f_line = strip line\<rparr>],
                  patterns := incr (''Performance: '' @ issue_type) (patterns s)\<rparr>
           else s) ps a
   = a\<lparr>performance_issues := performance_issues a @ map (mk line) (matched ps line),
        patterns := fold incr (map ((@) ''Performance: '') (matched ps line)) (patterns a)\<rparr>"
  by (induction ps arbitrary: a) (auto simp: matched_def mk_def)

lemma check_performance_issues_eq:
  "check_performance_issues line a
   = a\<lparr>performance_issues := performance_issues a @ pass_findings PerformancePass line,
        patterns := fold incr (pass_keys PerformancePass line) (patterns a)\<rparr>"
  by (simp add: check_performance_issues_def fold_performance)

lemma fold_null:
  "fold (\<lambda>pattern s.
           if re_search pattern line
           then s\<lparr>warnings := warnings s @ [\<lparr>f_type = t, f_line = strip line\<rparr>],
                  patterns := incr k (patterns s)\<rparr>
           else s) ps a
   = a\<lparr>warnings := warnings a @ replicate (nmatched ps line) (mk line t),
        patterns := fold incr (replicate (nmatched ps line) k) (patterns a)\<rparr>"
  by (induction ps arbitrary: a) (auto simp: nmatched_def mk_def funpow_swap1)

lemma check_null_safety_issues_eq:
  "check_null_safety_issues line a
   = a\<lparr>warnings := warnings a @ pass_findings NullSafetyPass line,
        patterns := fold incr (pass_keys NullSafetyPass line) (patterns a)\<rparr>"
  by (simp add: check_null_safety_issues_def fold_null)

lemma fold_async:
  "fold (\<lambda>pattern s.
           if re_search pattern line
           then s\<lparr>errors := errors s @ [\<lparr>f_type = t, f_line = strip line\<rparr>],
                  patterns := incr k (patterns s)\<rparr>
           else s) ps a
   = a\<lparr>errors := errors a @ replicate (nmatched ps line) (mk line t),
        patterns := fold incr (replicate (nmatched ps line) k) (patterns a)\<rparr>"
  by (induction ps arbitrary: a) (auto simp: nmatched_def mk_def funpow_swap1)

lemma check_async_errors_eq:
  "check_async_errors line a
   = a\<lparr>errors := errors a @ pass_findings AsyncPass line,
        patterns := fold incr (pass_keys AsyncPass line) (patterns a)\<rparr>"
  by (simp add: check_async_errors_def fold_async)

lemmas check_eqs = check_error_patterns_eq check_null_safety_issues_eq check_async_errors_eq
  check_security_issues_eq check_performance_issues_eq

lemma patterns_run_pass:
  "patterns (run_pass p line a) = fold incr (pass_keys p line) (patterns a)"
  by (cases p) (simp_all add: check_eqs)

lemma errors_run_pass:
  "errors (run_pass p line a) =
     errors a @ (if p = ErrorPass \<or> p = AsyncPass then pass_findings p line else [])"
  by (cases p) (simp_all add: check_eqs)

lemma warnings_run_pass:
  "warnings (run_pass p line a) =
     warnings a @ (if p = NullSafetyPass then pass_findings p line else [])"
  by (cases p) (simp_all add: check_eqs)

lemma security_run_pass:
  "security_issues (run_pass p line a) =
     security_issues a @ (if p = SecurityPass then pass_findings p line else [])"
  by (cases p) (simp_all add: check_eqs)

lemma performance_run_pass:
  "performance_issues (run_pass p line a) =
     performance_issues a @ (if p = PerformancePass then pass_findings p line else [])"
  by (cases p) (simp_all add: check_eqs)

lemma stack_traces_run_pass:
  "stack_traces (run_pass p line a) = stack_traces a"
  by (cases p) (simp_all add: check_eqs)

lemma length_pass_findings:
  "length (pass_findings p line) = length (pass_keys p line)"
  by (cases p) simp_all

lemma patterns_fold_pass:
  "patterns (fold (\<lambda>p. run_pass p line) ps a) =
     fold incr (concat (map (\<lambda>p. pass_keys p line) ps)) (patterns a)"
  by (induction ps arbitrary: a) (simp_all add: patterns_run_pass)

lemma errors_fold_pass:
  "errors (fold (\<lambda>p. run_pass p line) ps a) =
     errors a @ concat (map (\<lambda>p. pass_findings p line)
                          (filter (\<lambda>p. p = ErrorPass \<or> p = AsyncPass) ps))"
  by (induction ps arbitrary: a) (simp_all add: errors_run_pass)

lemma warnings_fold_pass:
  "warnings (fold (\<lambda>p. run_pass p line) ps a) =
     warnings a @ concat (map (\<lambda>p. pass_findings p line) (filter (\<lambda>p. p = NullSafetyPass) ps))"
  by (induction ps arbitrary: a) (simp_all add: warnings_run_pass)

lemma security_fold_pass:
  "security_issues (fold (\<lambda>p. run_pass p line) ps a) =
     security_issues a @
     concat (map (\<lambda>p. pass_findings p line) (filter (\<lambda>p. p = SecurityPass) ps))"
  by (induction ps arbitrary: a) (simp_all add: security_run_pass)

lemma performance_fold_pass:
  "performance_issues (fold (\<lambda>p. run_pass p line) ps a) =
     performance_issues a @
     concat (map (\<lambda>p. pass_findings p line) (filter (\<lambda>p. p = PerformancePass) ps))"
  by (induction ps arbitrary: a) (simp_all add: performance_run_pass)

lemma stack_traces_fold_pass:
  "stack_traces (fold (\<lambda>p. run_pass p line) ps a) = stack_traces a"
  by (induction ps arbitrary: a) (simp_all add: stack_traces_run_pass)

lemma check_stack_traces_fields:
  "errors (check_stack_traces line i all_lines a) = errors a"
  "warnings (check_stack_traces line i all_lines a) = warnings a"
  "patterns (check_stack_traces line i all_lines a) = patterns a"
  "security_issues (check_stack_traces line i all_lines a) = security_issues a"
  "performance_issues (check_stack_traces line i all_lines a) = performance_issues a"
  by (simp_all add: check_stack_traces_def Let_def)

lemma process_line_source_order:
  "process_line line i all_lines a = process_line_with source_order line i all_lines a"
  by (simp add: process_line_def process_line_with_def source_order_def)

lemma patterns_process_line_with:
  "strip line \<noteq> [] \<Longrightarrow>
   patterns (process_line_with ps line i all_lines a) =
     fold incr (concat (map (\<lambda>p. pass_keys p line) ps)) (patterns a)"
  by (simp add: process_line_with_def check_stack_traces_fields patterns_fold_pass)

lemma errors_process_line_with:
  "strip line \<noteq> [] \<Longrightarrow>
   errors (process_line_with ps line i all_lines a) =
     errors a @ concat (map (\<lambda>p. pass_findings p line)
                          (filter (\<lambda>p. p = ErrorPass \<or> p = AsyncPass) ps))"
  by (simp add: process_line_with_def check_stack_traces_fields errors_fold_pass)

lemma warnings_process_line_with:
  "strip line \<noteq> [] \<Longrightarrow>
   warnings (process_line_with ps line i all_lines a) =
     warnings a @ concat (map (\<lambda>p. pass_findings p line) (filter (\<lambda>p. p = NullSafetyPass) ps))"
  by (simp add: process_line_with_def check_stack_traces_fields warnings_fold_pass)

lemma security_process_line_with:
  "strip line \<noteq> [] \<Longrightarrow>
   security_issues (process_line_with ps line i all_lines a) =
     security_issues a @
     concat (map (\<lambda>p. pass_findings p line) (filter (\<lambda>p. p = SecurityPass) ps))"
  by (simp add: process_line_with_def check_stack_traces_fields security_fold_pass)

lemma performance_process_line_with:
  "strip line \<noteq> [] \<Longrightarrow>
   performance_issues (process_line_with ps line i all_lines a) =
     performance_issues a @
     concat (map (\<lambda>p. pass_findings p line) (filter (\<lambda>p. p = PerformancePass) ps))"
  by (simp add: process_line_with_def check_stack_traces_fields performance_fold_pass)

lemma errors_process_line:
  "strip line \<noteq> [] \<Longrightarrow>
   errors (process_line line i all_lines a) =
     errors a @ pass_findings ErrorPass line @ pass_findings AsyncPass line"
  by (simp add: process_line_source_order errors_process_line_with source_order_def)

lemma warnings_process_line:
  "strip line \<noteq> [] \<Longrightarrow>
   warnings (process_line line i all_lines a) = warnings a @ pass_findings NullSafetyPass line"
  by (simp add: process_line_source_order warnings_process_line_with source_order_def)

lemma security_process_line:
  "strip line \<noteq> [] \<Longrightarrow>
   security_issues (process_line line i all_lines a) =
     security_issues a @ pass_findings SecurityPass line"
  by (simp add: process_line_source_order security_process_line_with source_order_def)

lemma performance_process_line:
  "strip line \<noteq> [] \<Longrightarrow>
   performance_issues (process_line line i all_lines a) =
     performance_issues a @ pass_findings PerformancePass line"
  by (simp add: process_line_source_order performance_process_line_with source_order_def)

lemma count_process_line:
  assumes "strip line \<noteq> []"
  shows "count_of (patterns (process_line line i all_lines a)) k =
     count_of (patterns a) k
     + count_list (pass_keys ErrorPass line) k
     + count_list (pass_keys NullSafetyPass line) k
     + count_list (pass_keys AsyncPass line) k
     + count_list (pass_keys SecurityPass line) k
     + count_list (pass_keys PerformancePass line) k"
proof -
  have "patterns (process_line line i all_lines a) =
          fold incr (concat (map (\<lambda>p. pass_keys p line) source_order)) (patterns a)"
    unfolding process_line_source_order by (rule patterns_process_line_with [OF assms])
  then show ?thesis
    by (simp only: count_of_fold_incr source_order_def list.map concat.simps
          count_list_append append_Nil2 add.assoc)
qed

lemma filter_type_mk:
  "filter (\<lambda>f. f_type f = t) (map (mk line) ns) = replicate (count_list ns t) (mk line t)"
  by (induction ns) (auto simp: mk_def)

lemma count_list_map_append:
  "count_list (map ((@) pre) ns) (pre @ t) = count_list ns t"
  by (induction ns) auto

lemma distinct_error_names: "distinct (map snd error_patterns)"
  by (simp add: error_patterns_def)

lemma distinct_perf_names: "distinct (map snd perf_patterns)"
  by (simp add: perf_patterns_def)

lemma error_names_not_async:
  "(r, n) \<in> set error_patterns \<Longrightarrow> n \<noteq> ''Async/Future Error''"
  by (auto simp: error_patterns_def)

lemma error_names_other_keys:
  assumes "(r, n) \<in> set error_patterns"
  shows "count_list (pass_keys NullSafetyPass line) n = 0"
    and "count_list (pass_keys AsyncPass line) n = 0"
    and "count_list (pass_keys SecurityPass line) n = 0"
    and "count_list (pass_keys PerformancePass line) n = 0"
  using assms by (auto simp: error_patterns_def count_list_0_iff)

lemma perf_keys_other:
  "count_list (pass_keys ErrorPass line) (''Performance: '' @ t) = 0"
  "count_list (pass_keys NullSafetyPass line) (''Performance: '' @ t) = 0"
  "count_list (pass_keys AsyncPass line) (''Performance: '' @ t) = 0"
  "count_list (pass_keys SecurityPass line) (''Performance: '' @ t) = 0"
  by (auto simp: count_list_0_iff matched_def error_patterns_def)

lemma error_match:
  assumes mem: "(r, n) \<in> set error_patterns" and hit: "re_search r line"
  shows "count_of (patterns (process_line line i all_lines a)) n = count_of (patterns a) n + 1"
    and "take (length (errors a)) (errors (process_line line i all_lines a)) = errors a"
    and "filter (\<lambda>f. f_type f = n)
           (drop (length (errors a)) (errors (process_line line i all_lines a)))
         = [\<lparr>f_type = n, f_line = strip line\<rparr>]"
proof -
  have nb: "strip line \<noteq> []"
    using solid_error_patterns [OF mem] hit by (rule re_search_solid)
  have one: "count_list (matched error_patterns line) n = 1"
    using count_list_matched [OF distinct_error_names mem] hit by simp
  show "count_of (patterns (process_line line i all_lines a)) n = count_of (patterns a) n + 1"
    using one
    by (simp add: count_process_line [OF nb] error_names_other_keys [OF mem]
          del: pass_keys.simps(2-5))
  show "take (length (errors a)) (errors (process_line line i all_lines a)) = errors a"
    by (simp add: errors_process_line [OF nb])
  have "n \<noteq> ''Async/Future Error''"
    using mem by (rule error_names_not_async)
  then show "filter (\<lambda>f. f_type f = n)
           (drop (length (errors a)) (errors (process_line line i all_lines a)))
         = [\<lparr>f_type = n, f_line = strip line\<rparr>]"
    using one by (simp add: errors_process_line [OF nb] filter_type_mk mk_def)
qed

lemma perf_match:
  assumes mem: "(r, n) \<in> set perf_patterns" and hit: "re_search r line"
  shows "count_of (patterns (process_line line i all_lines a)) (''Performance: '' @ n)
           = count_of (patterns a) (''Performance: '' @ n) + 1"
    and "take (length (performance_issues a))
           (performance_issues (process_line line i all_lines a)) = performance_issues a"
    and "filter (\<lambda>f. f_type f = n)
           (drop (length (performance_issues a))
              (performance_issues (process_line line i all_lines a)))
         = [\<lparr>f_type = n, f_line = strip line\<rparr>]"
proof -
  have nb: "strip line \<noteq> []"
    using solid_perf_patterns [OF mem] hit by (rule re_search_solid)
  have one: "count_list (matched perf_patterns line) n = 1"
    using count_list_matched [OF distinct_perf_names mem] hit by simp
  define k where "k = ''Performance: '' @ n"
  have z: "count_list (pass_keys ErrorPass line) k = 0"
    "count_list (pass_keys NullSafetyPass line) k = 0"
    "count_list (pass_keys AsyncPass line) k = 0"
    "count_list (pass_keys SecurityPass line) k = 0"
    unfolding k_def by (rule perf_keys_other)+
  have o: "count_list (pass_keys PerformancePass line) k = 1"
    unfolding k_def using one by (simp only: pass_keys.simps count_list_map_append)
  have "count_of (patterns (process_line line i all_lines a)) k = count_of (patterns a) k + 1"
    by (simp add: count_process_line [OF nb] z o del: pass_keys.simps)
  then show "count_of (patterns (process_line line i all_lines a)) (''Performance: '' @ n)
           = count_of (patterns a) (''Performance: '' @ n) + 1"
    unfolding k_def .
  show "take (length (performance_issues a))
           (performance_issues (process_line line i all_lines a)) = performance_issues a"
    by (simp add: performance_process_line [OF nb])
  show "filter (\<lambda>f. f_type f = n)
           (drop (length (performance_issues a))
              (performance_issues (process_line line i all_lines a)))
         = [\<lparr>f_type = n, f_line = strip line\<rparr>]"
    using one by (simp add: performance_process_line [OF nb] filter_type_mk mk_def)
qed

lemma analyze_single:
  "analyze_lines [l] a = process_line l 0 [l] a"
  by (simp add: analyze_lines_def enumerate_simps)

lemma analyze_with_single:
  "analyze_lines_with order [l] a = process_line_with (order 0) l 0 [l] a"
  by (simp add: analyze_lines_with_def enumerate_simps)

section \<open>Report printing and the exit status\<close>

lemma getattr_async_errors:
  "getattr a ''async_errors'' = Inl (AttributeError ''async_errors'')"
  by (simp add: getattr_def instance_dict_def class_methods_def)

lemma print_report_raises:
  "snd (print_report a) = Inl (AttributeError ''async_errors'')"
  by (simp add: print_report_def Let_def getattr_async_errors)

lemma report_and_exit_raises:
  "snd (report_and_exit a) = Uncaught (AttributeError ''async_errors'')"
  using print_report_raises [of a]
  by (cases "print_report a") (simp add: report_and_exit_def)

lemma main_stdin_raises:
  "length argv < 2 \<Longrightarrow> snd (main argv fs stdin) = Uncaught (AttributeError ''async_errors'')"
  using report_and_exit_raises [of "analyze_stdin stdin init"]
  by (auto simp: main_def split: prod.splits)

lemma main_file_raises:
  "2 \<le> length argv \<Longrightarrow> fs (argv ! 1) = Inr content \<Longrightarrow>
   snd (main argv fs stdin) = Uncaught (AttributeError ''async_errors'')"
  using report_and_exit_raises [of "analyze_lines (split_nl content) init"]
  by (auto simp: main_def analyze_file_def Let_def split: prod.splits)

lemma main_exit_status:
  "exit_status (snd (main argv fs stdin)) = 1"
proof (cases "length argv < 2")
  case True
  then show ?thesis by (simp add: main_stdin_raises)
next
  case False
  show ?thesis
  proof (cases "fs (argv ! 1)")
    case (Inr content)
    with False show ?thesis by (simp add: main_file_raises)
  next
    case (Inl e)
    with False show ?thesis
      by (cases e) (simp_all add: main_def analyze_file_def Let_def)
  qed
qed

text \<open>
  Claim C1. Every call of \<open>print_report\<close> reads the attribute \<open>async_errors\<close>, which
  neither \<open>__init__\<close> nor any method defines, and ends there with \<open>AttributeError\<close>;
  so does every run of \<open>main\<close> that reaches the report, whether it read standard input
  or a file that could be opened.
\<close>

theorem print_report_reads_undefined_attribute:
  "getattr a ''async_errors'' = Inl (AttributeError ''async_errors'')
   \<and> snd (print_report a) = Inl (AttributeError ''async_errors'')
   \<and> (length argv < 2 \<longrightarrow>
        snd (main argv fs stdin) = Uncaught (AttributeError ''async_errors''))
   \<and> (2 \<le> length argv \<longrightarrow> fs (argv ! 1) = Inr content \<longrightarrow>
        snd (main argv fs stdin) = Uncaught (AttributeError ''async_errors''))"
  by (simp add: getattr_async_errors print_report_raises main_stdin_raises main_file_raises)

text \<open>
  The two ways to reach the report: no file argument, and a file that opens.
\<close>

theorem print_report_reads_undefined_attribute_witness:
  "length [''analyze_logs.py''] < 2
   \<and> snd (main [''analyze_logs.py''] (\<lambda>p. Inl FileNotFoundError) [''ok''])
       = Uncaught (AttributeError ''async_errors'')
   \<and> 2 \<le> length [''analyze_logs.py'', ''app.log'']
   \<and> (\<lambda>p. Inr ''ok'') ([''analyze_logs.py'', ''app.log''] ! 1) = (Inr ''ok'' :: error + string)
   \<and> snd (main [''analyze_logs.py'', ''app.log''] (\<lambda>p. Inr ''ok'') [])
       = Uncaught (AttributeError ''async_errors'')"
  using print_report_reads_undefined_attribute
          [of init "[''analyze_logs.py'']" "\<lambda>p. Inl FileNotFoundError" "[''ok'']" "''ok''"]
        print_report_reads_undefined_attribute
          [of init "[''analyze_logs.py'', ''app.log'']" "\<lambda>p. Inr ''ok''" "[]" "''ok''"]
  by simp

lemma ok_matches:
  "matched error_patterns ''ok'' = []"
  "nmatched async_patterns ''ok'' = 0"
  "matched security_patterns ''ok'' = []"
  by code_simp+

text \<open>
  Claim C5. The claim gives exit status 0 to a run without error and security
  findings. The file whose text is \<open>ok\<close> has no such finding, and the process still
  exits with status 1: the exception of \<open>print_report\<close> is not caught.
\<close>

theorem clean_file_exit_status:
  "errors (analyze_lines (split_nl ''ok'') init) = []
   \<and> security_issues (analyze_lines (split_nl ''ok'') init) = []
   \<and> exit_status (snd (main [''analyze_logs.py'', ''app.log''] (\<lambda>p. Inr ''ok'') [])) = 1"
proof -
  have s: "split_nl ''ok'' = [''ok'']" by code_simp
  have nb: "strip ''ok'' \<noteq> []" by code_simp
  show ?thesis
    by (simp add: s analyze_single errors_process_line [OF nb] security_process_line [OF nb]
          ok_matches init_def main_exit_status del: split_nl.simps)
qed

section \<open>Single lines\<close>

text \<open>
  Claim C6. A line that contains \<open>NullPointerException\<close> in any letter case raises the
  count of \<open>Null Pointer Exception\<close> by exactly 1, and the findings appended to
  \<open>errors\<close> hold exactly one of that type, with the stripped line.
\<close>

theorem null_pointer_exception_line:
  assumes "sublist (lower ''NullPointerException'') (lower line)"
  shows "count_of (patterns (process_line line i all_lines a)) ''Null Pointer Exception''
           = count_of (patterns a) ''Null Pointer Exception'' + 1
       \<and> take (length (errors a)) (errors (process_line line i all_lines a)) = errors a
       \<and> filter (\<lambda>f. f_type f = ''Null Pointer Exception'')
           (drop (length (errors a)) (errors (process_line line i all_lines a)))
         = [\<lparr>f_type = ''Null Pointer Exception'', f_line = strip line\<rparr>]"
proof -
  have mem: "(Alt (Lit ''NullPointerException'') (Lit ''null pointer''),
              ''Null Pointer Exception'') \<in> set error_patterns"
    by (simp add: error_patterns_def)
  have hit: "re_search (Alt (Lit ''NullPointerException'') (Lit ''null pointer'')) line"
    using assms by (simp only: re_search_Alt re_search_Lit) simp
  show ?thesis
    using error_match [OF mem hit] by blast
qed

theorem null_pointer_exception_line_witness:
  "sublist (lower ''NullPointerException'') (lower ''E nullpointerEXCEPTION'')
   \<and> count_of (patterns (process_line ''E nullpointerEXCEPTION'' 0 [] init))
       ''Null Pointer Exception'' = 1
   \<and> filter (\<lambda>f. f_type f = ''Null Pointer Exception'')
       (errors (process_line ''E nullpointerEXCEPTION'' 0 [] init))
     = [\<lparr>f_type = ''Null Pointer Exception'', f_line = ''E nullpointerEXCEPTION''\<rparr>]"
proof -
  have h: "sublist (lower ''NullPointerException'') (lower ''E nullpointerEXCEPTION'')"
    by code_simp
  have s: "strip ''E nullpointerEXCEPTION'' = ''E nullpointerEXCEPTION''"
    by code_simp
  from null_pointer_exception_line [OF h, of 0 "[]" init] h
  show ?thesis
    unfolding s by (simp add: init_def count_of_def)
qed



text \<open>
  Claim C10. A line that contains \<open>gc\<close> in any letter case, inside a word or not, gets
  one finding of type \<open>Garbage Collection\<close> appended to \<open>performance_issues\<close>, and the
  count of \<open>Performance: Garbage Collection\<close> goes up by 1.
\<close>

theorem gc_substring_line:
  assumes "sublist ''gc'' (lower line)"
  shows "count_of (patterns (process_line line i all_lines a))
           ''Performance: Garbage Collection''
           = count_of (patterns a) ''Performance: Garbage Collection'' + 1
       \<and> take (length (performance_issues a))
           (performance_issues (process_line line i all_lines a)) = performance_issues a
       \<and> filter (\<lambda>f. f_type f = ''Garbage Collection'')
           (drop (length (performance_issues a))
              (performance_issues (process_line line i all_lines a)))
         = [\<lparr>f_type = ''Garbage Collection'', f_line = strip line\<rparr>]"
proof -
  have mem: "(Alt (Cat (Lit ''garbage'') (Cat DotStar (Lit ''collect''))) (Lit ''GC''),
              ''Garbage Collection'') \<in> set perf_patterns"
    by (simp add: perf_patterns_def)
  have "re_search (Lit ''GC'') line"
    using assms by (simp only: re_search_Lit lower_literals)
  then have hit:
    "re_search (Alt (Cat (Lit ''garbage'') (Cat DotStar (Lit ''collect''))) (Lit ''GC'')) line"
    by (simp only: re_search_Alt) simp
  show ?thesis
    using perf_match [OF mem hit] by simp
qed

theorem gc_substring_line_witness:
  "sublist ''gc'' (lower ''logcat'')
   \<and> count_of (patterns (process_line ''logcat'' 0 [] init))
       ''Performance: Garbage Collection'' = 1
   \<and> filter (\<lambda>f. f_type f = ''Garbage Collection'')
       (performance_issues (process_line ''logcat'' 0 [] init))
     = [\<lparr>f_type = ''Garbage Collection'', f_line = ''logcat''\<rparr>]"
proof -
  have h: "sublist ''gc'' (lower ''logcat'')"
    by code_simp
  have s: "strip ''logcat'' = ''logcat''"
    by code_simp
  from gc_substring_line [OF h, of 0 "[]" init] h
  show ?thesis
    unfolding s by (simp add: init_def count_of_def)
qed

section \<open>Counters and findings\<close>

lemma run_pass_totals:
  "counts_total (run_pass p line a) = counts_total a + length (pass_keys p line)"
  "findings_total (run_pass p line a) = findings_total a + length (pass_keys p line)"
  by (cases p; simp add: counts_total_def findings_total_def check_eqs sum_fold_incr
        del: pass_keys.simps pass_findings.simps add: length_pass_findings)+

lemma fold_pass_balanced:
  "counts_total a = findings_total a \<Longrightarrow>
   counts_total (fold (\<lambda>p. run_pass p line) ps a) =
   findings_total (fold (\<lambda>p. run_pass p line) ps a)"
  by (induction ps arbitrary: a) (simp_all add: run_pass_totals)

lemma process_line_with_balanced:
  assumes "counts_total a = findings_total a"
  shows "counts_total (process_line_with ps line i all_lines a) =
         findings_total (process_line_with ps line i all_lines a)"
proof (cases "strip line = []")
  case True
  with assms show ?thesis by (simp add: process_line_with_def)
next
  case False
  have "counts_total (check_stack_traces line i all_lines s) = counts_total s"
    "findings_total (check_stack_traces line i all_lines s) = findings_total s" for s
    by (simp_all add: counts_total_def findings_total_def check_stack_traces_fields)
  with False fold_pass_balanced [OF assms] show ?thesis
    by (simp add: process_line_with_def)
qed

lemma fold_lines_balanced:
  assumes "counts_total a = findings_total a"
  shows "counts_total (fold (\<lambda>(i, line) s. process_line (f line) i all_lines s) xs a) =
         findings_total (fold (\<lambda>(i, line) s. process_line (f line) i all_lines s) xs a)"
  using assms
proof (induction xs arbitrary: a)
  case Nil
  then show ?case by simp
next
  case (Cons x xs)
  obtain i line where x: "x = (i, line)" by (cases x)
  have "counts_total (process_line (f line) i all_lines a) =
        findings_total (process_line (f line) i all_lines a)"
    unfolding process_line_source_order
    by (rule process_line_with_balanced [OF Cons.prems])
  from Cons.IH [OF this] x show ?case by simp
qed

lemma init_balanced: "counts_total init = findings_total init"
  by (simp add: counts_total_def findings_total_def init_def)

text \<open>
  Claim C9. After the analysis of any input, from a file or from standard input, the
  counters sum to the number of findings in the four lists.
\<close>

theorem counts_sum_is_findings_total:
  "sum_list (map snd (patterns (analyze_lines lines init))) =
     length (errors (analyze_lines lines init))
     + length (warnings (analyze_lines lines init))
     + length (security_issues (analyze_lines lines init))
     + length (performance_issues (analyze_lines lines init))
   \<and> sum_list (map snd (patterns (analyze_stdin lines init))) =
     length (errors (analyze_stdin lines init))
     + length (warnings (analyze_stdin lines init))
     + length (security_issues (analyze_stdin lines init))
     + length (performance_issues (analyze_stdin lines init))"
proof -
  have "counts_total (analyze_lines lines init) = findings_total (analyze_lines lines init)"
    unfolding analyze_lines_def
    using fold_lines_balanced [OF init_balanced, of "\<lambda>l. l"] by simp
  moreover
  have "counts_total (analyze_stdin lines init) = findings_total (analyze_stdin lines init)"
    unfolding analyze_stdin_def
    by (rule fold_lines_balanced [OF init_balanced])
  ultimately show ?thesis
    by (simp add: counts_total_def findings_total_def)
qed

theorem counts_sum_is_findings_total_witness:
  "sum_list (map snd (patterns (analyze_lines [''logcat''] init))) =
     length (errors (analyze_lines [''logcat''] init))
     + length (warnings (analyze_lines [''logcat''] init))
     + length (security_issues (analyze_lines [''logcat''] init))
     + length (performance_issues (analyze_lines [''logcat''] init))"
  using counts_sum_is_findings_total [of "[''logcat'']"] by blast

section \<open>Independent invocations\<close>

lemma frame_refl: "frame self h h"
  by (simp add: frame_def)

lemma frame_trans: "frame self h h' \<Longrightarrow> frame self h' h'' \<Longrightarrow> frame self h h''"
  by (simp add: frame_def)

lemma allocated_frame: "allocated self h \<Longrightarrow> frame self h h' \<Longrightarrow> allocated self h'"
  by (simp add: allocated_def frame_def)

lemma refines_id: "refines self (\<lambda>h. h) (\<lambda>a. a)"
  by (simp add: refines_def frame_refl)

lemma refines_comp:
  assumes "refines self f1 p1" and "refines self f2 p2"
  shows "refines self (\<lambda>h. f2 (f1 h)) (\<lambda>a. p2 (p1 a))"
  unfolding refines_def
proof (intro allI impI)
  fix h assume a: "allocated self h"
  with assms(1) have 1: "report_of self (f1 h) = p1 (report_of self h)" "frame self h (f1 h)"
    by (simp_all add: refines_def)
  from a 1(2) have "allocated self (f1 h)" by (rule allocated_frame)
  with assms(2) have 2: "report_of self (f2 (f1 h)) = p2 (report_of self (f1 h))"
    "frame self (f1 h) (f2 (f1 h))"
    by (simp_all add: refines_def)
  from 1 2 show "report_of self (f2 (f1 h)) = p2 (p1 (report_of self h)) \<and>
                 frame self h (f2 (f1 h))"
    using frame_trans by auto
qed

lemma refines_if:
  assumes "refines self f p" and "refines self g q"
  shows "refines self (\<lambda>h. if c then f h else g h) (\<lambda>a. if c then p a else q a)"
  using assms by (simp add: refines_def)

lemma refines_fold:
  assumes "\<And>x. refines self (fh x) (fp x)"
  shows "refines self (fold fh xs) (fold fp xs)"
proof (induction xs)
  case Nil
  show ?case using refines_id by (simp add: id_def)
next
  case (Cons x xs)
  have "refines self (\<lambda>h. fold fh xs (fh x h)) (\<lambda>a. fold fp xs (fp x a))"
    using assms [of x] Cons.IH by (rule refines_comp)
  then show ?case by (simp add: comp_def)
qed

lemma refines_errors_step:
  "refines self
     (\<lambda>g. incr_at (patterns_ref self) k (append_finding (errors_ref self) f g))
     (\<lambda>s. s\<lparr>errors := errors s @ [f], patterns := incr k (patterns s)\<rparr>)"
  by (auto simp: refines_def allocated_def frame_def report_of_def incr_at_def
        append_finding_def list_refs_def nth_list_update)

lemma refines_warnings_step:
  "refines self
     (\<lambda>g. incr_at (patterns_ref self) k (append_finding (warnings_ref self) f g))
     (\<lambda>s. s\<lparr>warnings := warnings s @ [f], patterns := incr k (patterns s)\<rparr>)"
  by (auto simp: refines_def allocated_def frame_def report_of_def incr_at_def
        append_finding_def list_refs_def nth_list_update)

lemma refines_security_step:
  "refines self
     (\<lambda>g. incr_at (patterns_ref self) k (append_finding (security_issues_ref self) f g))
     (\<lambda>s. s\<lparr>security_issues := security_issues s @ [f], patterns := incr k (patterns s)\<rparr>)"
  by (auto simp: refines_def allocated_def frame_def report_of_def incr_at_def
        append_finding_def list_refs_def nth_list_update)

lemma refines_performance_step:
  "refines self
     (\<lambda>g. incr_at (patterns_ref self) k (append_finding (performance_issues_ref self) f g))
     (\<lambda>s. s\<lparr>performance_issues := performance_issues s @ [f],
            patterns := incr k (patterns s)\<rparr>)"
  by (auto simp: refines_def allocated_def frame_def report_of_def incr_at_def
        append_finding_def list_refs_def nth_list_update)

lemma refines_trace_step:
  "refines self (append_string (stack_traces_ref self) t)
     (\<lambda>s. s\<lparr>stack_traces := stack_traces s @ [t]\<rparr>)"
  by (auto simp: refines_def allocated_def frame_def report_of_def append_string_def
        nth_list_update)

lemma refines_check_error_patterns:
  "refines self (check_error_patterns_h self line) (check_error_patterns line)"
proof -
  have "refines self
     (fold (\<lambda>x g. if re_search (fst x) line
                   then incr_at (patterns_ref self) (snd x)
                          (append_finding (errors_ref self)
                             \<lparr>f_type = snd x, f_line = strip line\<rparr> g)
                   else g) error_patterns)
     (fold (\<lambda>x s. if re_search (fst x) line
                   then s\<lparr>errors := errors s @ [\<lparr>f_type = snd x, f_line = strip line\<rparr>],
                          patterns := incr (snd x) (patterns s)\<rparr>
                   else s) error_patterns)"
    by (intro refines_fold refines_if refines_errors_step refines_id)
  then show ?thesis
    by (simp add: check_error_patterns_h_def [abs_def] check_error_patterns_def [abs_def]
          case_prod_unfold)
qed

lemma refines_check_security_issues:
  "refines self (check_security_issues_h self line) (check_security_issues line)"
proof -
  have "refines self
     (fold (\<lambda>x g. if re_search (fst x) line
                   then incr_at (patterns_ref self) (''Security: '' @ snd x)
                          (append_finding (security_issues_ref self)
                             \<lparr>f_type = snd x, f_line = strip line\<rparr> g)
                   else g) security_patterns)
     (fold (\<lambda>x s. if re_search (fst x) line
                   then s\<lparr>security_issues := security_issues s @
                            [\<lparr>f_type = snd x, f_line = strip line\<rparr>],
                          patterns := incr (''Security: '' @ snd x) (patterns s)\<rparr>
                   else s) security_patterns)"
    by (intro refines_fold refines_if refines_security_step refines_id)
  then show ?thesis
    by (simp add: check_security_issues_h_def [abs_def] check_security_issues_def [abs_def]
          case_prod_unfold)
qed

lemma refines_check_performance_issues:
  "refines self (check_performance_issues_h self line) (check_performance_issues line)"
proof -
  have "refines self
     (fold (\<lambda>x g. if re_search (fst x) line
                   then incr_at (patterns_ref self) (''Performance: '' @ snd x)
                          (append_finding (performance_issues_ref self)
                             \<lparr>f_type = snd x, f_line = strip line\<rparr> g)
                   else g) perf_patterns)
     (fold (\<lambda>x s. if re_search (fst x) line
                   then s\<lparr>performance_issues := performance_issues s @
                            [\<lparr>f_type = snd x, f_line = strip line\<rparr>],
                          patterns := incr (''Performance: '' @ snd x) (patterns s)\<rparr>
                   else s) perf_patterns)"
    by (intro refines_fold refines_if refines_performance_step refines_id)
  then show ?thesis
    by (simp add: check_performance_issues_h_def [abs_def]
          check_performance_issues_def [abs_def] case_prod_unfold)
qed

lemma refines_check_null_safety_issues:
  "refines self (check_null_safety_issues_h self line) (check_null_safety_issues line)"
  unfolding check_null_safety_issues_h_def [abs_def] check_null_safety_issues_def [abs_def]
  by (intro refines_fold refines_if refines_warnings_step refines_id)

lemma refines_check_async_errors:
  "refines self (check_async_errors_h self line) (check_async_errors line)"
  unfolding check_async_errors_h_def [abs_def] check_async_errors_def [abs_def]
  by (intro refines_fold refines_if refines_errors_step refines_id)

lemma refines_check_stack_traces:
  "refines self (check_stack_traces_h self line i all_lines)
                (check_stack_traces line i all_lines)"
  unfolding check_stack_traces_h_def [abs_def] check_stack_traces_def [abs_def] Let_def
  by (intro refines_if refines_trace_step refines_id)

lemma refines_process_line:
  "refines self (process_line_h self line i all_lines) (process_line line i all_lines)"
proof -
  note e = refines_check_error_patterns [of self line]
  note n = refines_check_null_safety_issues [of self line]
  note a = refines_check_async_errors [of self line]
  note s = refines_check_security_issues [of self line]
  note p = refines_check_performance_issues [of self line]
  note t = refines_check_stack_traces [of self line i all_lines]
  note c = refines_comp
  have "refines self
     (\<lambda>h. check_stack_traces_h self line i all_lines
             (check_performance_issues_h self line
               (check_security_issues_h self line
                 (check_async_errors_h self line
                   (check_null_safety_issues_h self line
                     (check_error_patterns_h self line h))))))
     (\<lambda>a. check_stack_traces line i all_lines
             (check_performance_issues line
               (check_security_issues line
                 (check_async_errors line
                   (check_null_safety_issues line
                     (check_error_patterns line a))))))"
    by (rule c [OF c [OF c [OF c [OF c [OF e n] a] s] p] t])
  with refines_id [of self]
  have "refines self
     (\<lambda>h. if strip line = [] then h
           else check_stack_traces_h self line i all_lines
             (check_performance_issues_h self line
               (check_security_issues_h self line
                 (check_async_errors_h self line
                   (check_null_safety_issues_h self line
                     (check_error_patterns_h self line h))))))
     (\<lambda>a. if strip line = [] then a
           else check_stack_traces line i all_lines
             (check_performance_issues line
               (check_security_issues line
                 (check_async_errors line
                   (check_null_safety_issues line
                     (check_error_patterns line a))))))"
    by (rule refines_if)
  then show ?thesis
    by (simp only: process_line_h_def [abs_def] process_line_def [abs_def])
qed

lemma refines_analyze_lines:
  "refines self (analyze_lines_h self lines) (analyze_lines lines)"
proof -
  have "refines self
     (fold (\<lambda>x. process_line_h self (snd x) (fst x) lines) (enumerate 0 lines))
     (fold (\<lambda>x. process_line (snd x) (fst x) lines) (enumerate 0 lines))"
    by (intro refines_fold refines_process_line)
  then show ?thesis
    by (simp add: analyze_lines_h_def [abs_def] analyze_lines_def [abs_def] case_prod_unfold)
qed

lemma new_analyzer_allocated:
  assumes "new_analyzer h = (self, h1)"
  shows "allocated self h1" and "report_of self h1 = init"
  using assms
  by (auto simp: new_analyzer_def Let_def allocated_def list_refs_def report_of_def init_def
        nth_append)

lemma new_analyzer_keeps:
  assumes "new_analyzer h = (self, h1)" and "allocated other h"
  shows "report_of other h1 = report_of other h"
    and "list_refs other \<inter> list_refs self = {}"
    and "stack_traces_ref other \<noteq> stack_traces_ref self"
    and "patterns_ref other \<noteq> patterns_ref self"
  using assms
  by (auto simp: new_analyzer_def Let_def allocated_def list_refs_def report_of_def nth_append)

lemma frame_keeps:
  assumes "frame self h h'"
    and "list_refs other \<inter> list_refs self = {}"
    and "stack_traces_ref other \<noteq> stack_traces_ref self"
    and "patterns_ref other \<noteq> patterns_ref self"
  shows "report_of other h' = report_of other h"
proof -
  have "errors_ref other \<notin> list_refs self" "warnings_ref other \<notin> list_refs self"
    "security_issues_ref other \<notin> list_refs self"
    "performance_issues_ref other \<notin> list_refs self"
    using assms(2) by (auto simp: list_refs_def)
  with assms(1,3,4) show ?thesis
    by (simp add: frame_def report_of_def)
qed

lemma invoke_report:
  assumes "invoke lines h = (self, h')"
  shows "report_of self h' = analyze_lines lines init" and "allocated self h'"
proof -
  obtain h1 where n: "new_analyzer h = (self, h1)" and h': "h' = analyze_lines_h self lines h1"
    using assms by (auto simp: invoke_def split: prod.splits)
  note a = new_analyzer_allocated [OF n]
  from refines_analyze_lines [of self lines] a(1)
  have r: "report_of self h' = analyze_lines lines (report_of self h1)" "frame self h1 h'"
    unfolding h' by (simp_all add: refines_def)
  from r(1) a(2) show "report_of self h' = analyze_lines lines init" by simp
  from a(1) r(2) show "allocated self h'" by (rule allocated_frame)
qed

lemma invoke_keeps:
  assumes "invoke lines h = (self, h')" and "allocated other h"
  shows "report_of other h' = report_of other h"
proof -
  obtain h1 where n: "new_analyzer h = (self, h1)" and h': "h' = analyze_lines_h self lines h1"
    using assms(1) by (auto simp: invoke_def split: prod.splits)
  note k = new_analyzer_keeps [OF n assms(2)]
  from refines_analyze_lines [of self lines] new_analyzer_allocated(1) [OF n]
  have "frame self h1 h'"
    unfolding h' by (simp add: refines_def)
  then have "report_of other h' = report_of other h1"
    using k(2-4) by (rule frame_keeps)
  with k(1) show ?thesis by simp
qed

text \<open>
  Claim C8. Each invocation constructs its own analyzer. Its report is the analysis of
  its input lines from the empty analyzer, whatever the heap held before, so two
  invocations on the same lines give identical reports; and a later invocation in the
  same process leaves the objects of an earlier analyzer as they were.
\<close>

theorem independent_invocations:
  "(let (a1, h1) = invoke lines h; (a2, h2) = invoke lines' h1; (b, g) = invoke lines h'
    in report_of a1 h1 = analyze_lines lines init
     \<and> report_of b g = report_of a1 h1
     \<and> report_of a2 h2 = analyze_lines lines' init
     \<and> report_of a1 h2 = report_of a1 h1)"
proof -
  obtain a1 h1 where 1: "invoke lines h = (a1, h1)" by (cases "invoke lines h")
  obtain a2 h2 where 2: "invoke lines' h1 = (a2, h2)" by (cases "invoke lines' h1")
  obtain b g where 3: "invoke lines h' = (b, g)" by (cases "invoke lines h'")
  note r1 = invoke_report [OF 1]
  have "report_of a1 h2 = report_of a1 h1"
    using 2 r1(2) by (rule invoke_keeps)
  with r1(1) invoke_report(1) [OF 2] invoke_report(1) [OF 3] show ?thesis
    by (simp add: 1 2 3)
qed

theorem independent_invocations_witness:
  "(let (a1, h1) = invoke [''logcat''] \<lparr>finding_lists = [], string_lists = [], dicts = []\<rparr>;
        (a2, h2) = invoke [''at a'', ''  at b''] h1
    in report_of a1 h2 = report_of a1 h1 \<and> report_of a1 h1 = analyze_lines [''logcat''] init)"
  using independent_invocations
          [of "[''logcat'']" "\<lparr>finding_lists = [], string_lists = [], dicts = []\<rparr>"
              "[''at a'', ''  at b'']" "\<lparr>finding_lists = [], string_lists = [], dicts = []\<rparr>"]
  by (simp add: case_prod_unfold Let_def)

text \<open>
  The state is in the objects of the analyzer: analyzing again with the same analyzer,
  instead of a new one, adds to its lists.
\<close>

lemma reused_analyzer_accumulates:
  assumes "invoke [''logcat''] h = (a1, h1)"
  shows "length (performance_issues (report_of a1 (analyze_lines_h a1 [''logcat''] h1)))
         > length (performance_issues (report_of a1 h1))"
proof -
  have nb: "strip ''logcat'' \<noteq> []" by code_simp
  have mem: "(Alt (Cat (Lit ''garbage'') (Cat DotStar (Lit ''collect''))) (Lit ''GC''),
              ''Garbage Collection'') \<in> set perf_patterns"
    by (simp add: perf_patterns_def)
  have "sublist (lower ''GC'') (lower ''logcat'')" by code_simp
  then have "re_search (Lit ''GC'') ''logcat''"
    by (simp only: re_search_Lit)
  then have hit:
    "re_search (Alt (Cat (Lit ''garbage'') (Cat DotStar (Lit ''collect''))) (Lit ''GC''))
       ''logcat''"
    by (simp only: re_search_Alt simp_thms)
  have "count_list (matched perf_patterns ''logcat'') ''Garbage Collection'' = 1"
    using count_list_matched [OF distinct_perf_names mem] hit by simp
  then have ne: "pass_findings PerformancePass ''logcat'' \<noteq> []"
    by auto
  from refines_analyze_lines [of a1 "[''logcat'']"] invoke_report(2) [OF assms]
  have "report_of a1 (analyze_lines_h a1 [''logcat''] h1)
        = analyze_lines [''logcat''] (report_of a1 h1)"
    by (simp add: refines_def)
  then show ?thesis
    using ne by (simp add: analyze_single performance_process_line [OF nb]
                   del: pass_findings.simps)
qed

section \<open>Stack traces\<close>

lemma trace_loop_eq:
  "trace_loop all_lines i trace = trace @ takeWhile continues_trace (drop i all_lines)"
proof (induction all_lines i trace rule: trace_loop.induct)
  case (1 all_lines i trace)
  show ?case
  proof (cases "i < length all_lines \<and> continues_trace (all_lines ! i)")
    case True
    then have "drop i all_lines = all_lines ! i # drop (Suc i) all_lines"
      by (simp add: Cons_nth_drop_Suc)
    with True 1 show ?thesis
      by (subst trace_loop.simps) simp
  next
    case False
    then have "takeWhile continues_trace (drop i all_lines) = []"
      by (cases "i < length all_lines") (auto simp: takeWhile_eq_Nil_iff hd_drop_conv_nth)
    with False show ?thesis
      by (subst trace_loop.simps) auto
  qed
qed

lemma enumerate_nth: "enumerate 0 xs = map (\<lambda>i. (i, xs ! i)) [0..<length xs]"
  by (rule nth_equalityI) (simp_all add: nth_enumerate_eq)

lemma analyze_lines_alt:
  "analyze_lines lines a = fold (\<lambda>i s. process_line (lines ! i) i lines s) [0..<length lines] a"
  by (simp add: analyze_lines_def enumerate_nth fold_map comp_def)

lemma takeWhile_Nil_nth:
  "takeWhile P (drop n xs) \<noteq> [] \<longleftrightarrow> n < length xs \<and> P (xs ! n)"
proof (cases "n < length xs")
  case True
  then have "drop n xs = xs ! n # drop (Suc n) xs"
    by (simp add: Cons_nth_drop_Suc)
  with True show ?thesis by simp
next
  case False
  then show ?thesis by simp
qed

lemma check_stack_traces_eq:
  "stack_traces (check_stack_traces line i all_lines a) =
     stack_traces a @
     (if starts_trace line \<and> i + 1 < length all_lines \<and> continues_trace (all_lines ! (i + 1))
      then [join_nl (line # takeWhile continues_trace (drop (i + 1) all_lines))] else [])"
  using takeWhile_Nil_nth [of continues_trace "i + 1" all_lines]
  by (auto simp: check_stack_traces_def trace_loop_eq Let_def)

lemma stack_traces_process_line:
  "stack_traces (process_line line i all_lines a) =
     stack_traces a @
     (if strip line \<noteq> [] \<and> starts_trace line \<and> i + 1 < length all_lines \<and>
         continues_trace (all_lines ! (i + 1))
      then [join_nl (line # takeWhile continues_trace (drop (i + 1) all_lines))] else [])"
  by (simp add: process_line_source_order process_line_with_def check_stack_traces_eq
        stack_traces_fold_pass)

lemma span_text_block:
  assumes "i < length lines"
  shows "span_text lines (i, block_end lines i) =
           join_nl (lines ! i # takeWhile continues_trace (drop (i + 1) lines))"
proof -
  have "drop i lines = lines ! i # drop (i + 1) lines"
    using assms by (simp add: Cons_nth_drop_Suc)
  moreover have "take (length (takeWhile continues_trace (drop (i + 1) lines))) (drop (i + 1) lines)
                 = takeWhile continues_trace (drop (i + 1) lines)"
    by (rule takeWhile_eq_take [symmetric])
  ultimately show ?thesis
    by (simp add: span_text_def block_end_def)
qed

lemma stack_traces_step:
  assumes "i < length lines"
  shows "stack_traces (process_line (lines ! i) i lines s) =
     stack_traces s @
     (if records_trace lines i then [span_text lines (i, block_end lines i)] else [])"
  by (simp add: stack_traces_process_line span_text_block [OF assms] records_trace_def)

lemma stack_traces_fold:
  assumes "\<forall>i \<in> set js. i < length lines"
  shows "stack_traces (fold (\<lambda>i s. process_line (lines ! i) i lines s) js a) =
     stack_traces a @
     map (\<lambda>i. span_text lines (i, block_end lines i)) (filter (records_trace lines) js)"
  using assms by (induction js arbitrary: a) (simp_all add: stack_traces_step)

lemma stack_traces_analyze_lines:
  "stack_traces (analyze_lines lines a) =
     stack_traces a @ map (span_text lines) (trace_spans lines)"
  by (simp add: analyze_lines_alt stack_traces_fold trace_spans_def comp_def)

lemma span_props:
  assumes "(i, j) \<in> set (trace_spans lines)"
  shows "i + 2 \<le> j" and "j \<le> length lines" and "starts_trace (lines ! i)"
    and "strip (lines ! i) \<noteq> []"
    and "\<And>k. i < k \<Longrightarrow> k < j \<Longrightarrow> continues_trace (lines ! k)"
    and "j < length lines \<Longrightarrow> \<not> continues_trace (lines ! j)"
proof -
  define tw where "tw = takeWhile continues_trace (drop (i + 1) lines)"
  from assms have rec: "records_trace lines i" and j: "j = i + 1 + length tw"
    and i: "i < length lines"
    by (auto simp: trace_spans_def block_end_def tw_def)
  from rec have "tw \<noteq> []"
    unfolding tw_def by (simp add: takeWhile_Nil_nth records_trace_def)
  then show "i + 2 \<le> j" using j by (cases tw) auto
  have len: "length tw \<le> length lines - (i + 1)"
    unfolding tw_def using length_takeWhile_le [of continues_trace "drop (i + 1) lines"]
    by simp
  from rec have "i + 1 < length lines" by (simp add: records_trace_def)
  with len show "j \<le> length lines" using j by simp
  from rec show "starts_trace (lines ! i)" "strip (lines ! i) \<noteq> []"
    by (simp_all add: records_trace_def)
  show "continues_trace (lines ! k)" if "i < k" "k < j" for k
  proof -
    from that j have k: "k - (i + 1) < length tw" by simp
    then have "tw ! (k - (i + 1)) = drop (i + 1) lines ! (k - (i + 1))"
      unfolding tw_def by (rule takeWhile_nth)
    also have "\<dots> = lines ! k"
      using that \<open>j \<le> length lines\<close> by simp
    finally have "lines ! k \<in> set tw"
      using k by (metis nth_mem)
    then show ?thesis
      unfolding tw_def by (rule set_takeWhileD [THEN conjunct2])
  qed
  show "\<not> continues_trace (lines ! j)" if "j < length lines"
  proof -
    from that j have "length tw < length (drop (i + 1) lines)" by simp
    then have "\<not> continues_trace (drop (i + 1) lines ! length tw)"
      unfolding tw_def by (rule nth_length_takeWhile)
    moreover have "drop (i + 1) lines ! length tw = lines ! j"
      using that j by (simp add: add.commute add.left_commute)
    ultimately show ?thesis by simp
  qed
qed

lemma span_starts_sorted: "sorted_wrt (<) (map fst (trace_spans lines))"
proof -
  have "map fst (trace_spans lines) = filter (records_trace lines) [0..<length lines]"
    by (simp add: trace_spans_def comp_def)
  then show ?thesis
    by (simp add: sorted_wrt_filter)
qed

lemma example_trace_spans: "trace_spans example_trace = [(1, 3)]"
  by code_simp

lemma overlap_trace_spans: "trace_spans overlap_trace = [(0, 3), (1, 3)]"
  by code_simp

lemma example_trace_result:
  "stack_traces (analyze_lines example_trace init) = [''  at bar()\<newline>  at baz()'']"
  by (simp add: stack_traces_analyze_lines example_trace_spans init_def)
     (simp add: span_text_def example_trace_def newline_def)

lemma overlap_trace_result:
  "stack_traces (analyze_lines overlap_trace init) =
     [''at a\<newline>  at b\<newline>  at c'', ''  at b\<newline>  at c'']"
  by (simp add: stack_traces_analyze_lines overlap_trace_spans init_def)
     (simp add: span_text_def overlap_trace_def newline_def)

lemma lone_start_no_block:
  assumes "index + 1 < length all_lines \<longrightarrow> \<not> continues_trace (all_lines ! (index + 1))"
  shows "stack_traces (process_line line index all_lines a) = stack_traces a"
  using assms by (simp add: stack_traces_process_line)

text \<open>
  The example of claim C3 as stated: one block of 3 lines. The analysis records one
  block, and it has 2 lines.
\<close>

theorem example_trace_block_not_three_lines:
  "\<not> (length (stack_traces (analyze_lines example_trace init)) = 1 \<and>
      length (split_nl (stack_traces (analyze_lines example_trace init) ! 0)) = 3)"
proof -
  have "length (split_nl ''  at bar()\<newline>  at baz()'') = 2"
    by code_simp
  then show ?thesis
    by (simp only: example_trace_result nth_Cons_0) simp
qed

text \<open>
  Claim C3, amended. On the example the analysis records exactly one block, made of the
  2 lines \<open>at bar()\<close> and \<open>at baz()\<close> with their indentation: the line
  \<open>Exception foo\<close> does not open a trace. A line containing \<open>at \<close> whose next line is
  missing or is no continuation line records no block.
\<close>

theorem example_trace_and_lone_start:
  "stack_traces (analyze_lines example_trace init) = [join_nl [''  at bar()'', ''  at baz()'']]
   \<and> length (split_nl (join_nl [''  at bar()'', ''  at baz()''])) = 2
   \<and> (sublist ''at '' line \<and>
       (index + 1 < length all_lines \<longrightarrow> \<not> continues_trace (all_lines ! (index + 1)))
       \<longrightarrow> stack_traces (process_line line index all_lines a) = stack_traces a)"
proof -
  have "length (split_nl ''  at bar()\<newline>  at baz()'') = 2"
    by code_simp
  then show ?thesis
    by (simp add: example_trace_result lone_start_no_block newline_def)
qed

theorem example_trace_and_lone_start_witness:
  "sublist ''at '' ''  at baz()''
   \<and> (2::nat) + 1 < length example_trace
   \<and> \<not> continues_trace (example_trace ! (2 + 1))
   \<and> stack_traces (process_line ''  at baz()'' 2 example_trace init) = stack_traces init"
proof -
  have h1: "sublist ''at '' ''  at baz()''" by code_simp
  have h2: "\<not> continues_trace (example_trace ! (2 + 1))" by code_simp
  have h3: "(2::nat) + 1 < length example_trace" by (simp add: example_trace_def)
  from example_trace_and_lone_start [of "''  at baz()''" 2 example_trace init] h1 h2 h3
  show ?thesis by blast
qed

text \<open>
  Claim C4 as stated has no input line in two blocks. Here the lines at index 1 and 2
  are in both recorded blocks.
\<close>

theorem overlapping_trace_blocks:
  "stack_traces (analyze_lines overlap_trace init) =
     [join_nl [''at a'', ''  at b'', ''  at c''], join_nl [''  at b'', ''  at c'']]
   \<and> overlap_trace = [''at a'', ''  at b'', ''  at c'']
   \<and> trace_spans overlap_trace = [(0, 3), (1, 3)]"
  by (simp add: overlap_trace_result overlap_trace_spans newline_def)
     (simp add: overlap_trace_def)

text \<open>
  Claim C4, amended. The recorded blocks are, in order, the texts of the spans of
  \<open>trace_spans\<close>. Each span is a run of at least two consecutive lines that begins at a
  line opening a trace, continues with continuation lines only and cannot be extended
  forward; no two blocks begin at the same line.
\<close>

theorem trace_blocks_are_maximal_runs:
  "stack_traces (analyze_lines lines init) = map (span_text lines) (trace_spans lines)
   \<and> (\<forall>(i, j) \<in> set (trace_spans lines).
        i + 2 \<le> j \<and> j \<le> length lines \<and> starts_trace (lines ! i) \<and>
        (\<forall>k. i < k \<and> k < j \<longrightarrow> continues_trace (lines ! k)) \<and>
        (j < length lines \<longrightarrow> \<not> continues_trace (lines ! j)))
   \<and> sorted_wrt (<) (map fst (trace_spans lines))"
proof -
  have "stack_traces (analyze_lines lines init) = map (span_text lines) (trace_spans lines)"
    by (simp add: stack_traces_analyze_lines init_def)
  moreover have "\<forall>(i, j) \<in> set (trace_spans lines).
        i + 2 \<le> j \<and> j \<le> length lines \<and> starts_trace (lines ! i) \<and>
        (\<forall>k. i < k \<and> k < j \<longrightarrow> continues_trace (lines ! k)) \<and>
        (j < length lines \<longrightarrow> \<not> continues_trace (lines ! j))"
    using span_props by blast
  ultimately show ?thesis
    using span_starts_sorted by blast
qed

theorem trace_blocks_are_maximal_runs_witness:
  "(1, 3) \<in> set (trace_spans example_trace)
   \<and> span_text example_trace (1, 3) \<in> set (stack_traces (analyze_lines example_trace init))
   \<and> (1::nat) + 2 \<le> 3 \<and> 3 \<le> length example_trace
   \<and> starts_trace (example_trace ! 1)
   \<and> continues_trace (example_trace ! 2)
   \<and> (3::nat) < length example_trace
   \<and> \<not> continues_trace (example_trace ! 3)"
proof -
  have m: "(1, 3) \<in> set (trace_spans example_trace)"
    by (simp add: example_trace_spans)
  have l: "(3::nat) < length example_trace"
    by (simp add: example_trace_def)
  from trace_blocks_are_maximal_runs [of example_trace] m l
  show ?thesis by fastforce
qed

section \<open>The order of the passes\<close>

lemma mset_concat_map:
  "mset (concat (map f xs)) = (\<Sum>x\<in>#mset xs. mset (f x))"
  by (induction xs) simp_all

lemma perm_concat:
  "mset ps = mset qs \<Longrightarrow> mset (concat (map f ps)) = mset (concat (map f qs))"
  by (simp add: mset_concat_map)

lemma perm_filter_concat:
  assumes "mset ps = mset qs"
  shows "mset (concat (map f (filter P ps))) = mset (concat (map f (filter P qs)))"
proof -
  have "mset (filter P ps) = mset (filter P qs)"
    using assms by (simp only: mset_filter)
  then show ?thesis by (rule perm_concat)
qed

lemma mset_single_list: "mset ys = {#x#} \<Longrightarrow> ys = [x]"
  by (cases ys) auto

lemma filter_eq_single:
  assumes "mset ps = mset qs" "filter (\<lambda>p. p = x) qs = [x]"
  shows "filter (\<lambda>p. p = x) ps = [x]"
proof -
  have "mset (filter (\<lambda>p. p = x) ps) = mset (filter (\<lambda>p. p = x) qs)"
    using assms(1) by (simp only: mset_filter)
  then have "mset (filter (\<lambda>p. p = x) ps) = {#x#}"
    by (simp only: assms(2) mset.simps)
  then show ?thesis by (rule mset_single_list)
qed

lemma pass_order_filters:
  assumes "is_pass_order ps"
  shows "filter (\<lambda>p. p = NullSafetyPass) ps = [NullSafetyPass]"
    and "filter (\<lambda>p. p = SecurityPass) ps = [SecurityPass]"
    and "filter (\<lambda>p. p = PerformancePass) ps = [PerformancePass]"
  using assms unfolding is_pass_order_def
  by (rule filter_eq_single; simp add: source_order_def)+

lemma step_same_but_errors:
  assumes R: "same_but_errors a b" and ord: "is_pass_order ps"
  shows "same_but_errors (process_line_with ps line i all_lines a)
                         (process_line line i all_lines b)"
proof (cases "strip line = []")
  case True
  with R show ?thesis
    by (simp add: process_line_source_order process_line_with_def)
next
  case nb: False
  have m: "mset ps = mset source_order"
    using ord by (simp add: is_pass_order_def)
  have so: "is_pass_order source_order"
    by (simp add: is_pass_order_def)
  have keys: "mset (concat (map (\<lambda>p. pass_keys p line) ps)) =
              mset (concat (map (\<lambda>p. pass_keys p line) source_order))"
    using m by (rule perm_concat)
  have cnt: "count_list (concat (map (\<lambda>p. pass_keys p line) ps)) k =
             count_list (concat (map (\<lambda>p. pass_keys p line) source_order)) k" for k
    using keys by (metis count_mset)
  have kset: "set (concat (map (\<lambda>p. pass_keys p line) ps)) =
              set (concat (map (\<lambda>p. pass_keys p line) source_order))"
    using keys by (rule mset_eq_setD)
  have errs: "mset (concat (map (\<lambda>p. pass_findings p line)
                 (filter (\<lambda>p. p = ErrorPass \<or> p = AsyncPass) ps))) =
              mset (concat (map (\<lambda>p. pass_findings p line)
                 (filter (\<lambda>p. p = ErrorPass \<or> p = AsyncPass) source_order)))"
    using m by (rule perm_filter_concat)
  have st: "stack_traces (process_line_with ps line i all_lines a) =
            stack_traces (process_line_with source_order line i all_lines b)"
    using R by (simp add: process_line_with_def check_stack_traces_eq stack_traces_fold_pass
                  same_but_errors_def)
  show ?thesis
    unfolding process_line_source_order same_but_errors_def
    using R st cnt kset errs
    by (simp add: warnings_process_line_with [OF nb] security_process_line_with [OF nb]
          performance_process_line_with [OF nb] errors_process_line_with [OF nb]
          patterns_process_line_with [OF nb] pass_order_filters [OF ord]
          pass_order_filters [OF so] count_of_fold_incr keys_fold_incr same_but_errors_def
          del: pass_keys.simps pass_findings.simps)
qed

lemma step_errors:
  assumes "errors a = errors b" and "error_before_async ps"
  shows "errors (process_line_with ps line i all_lines a) = errors (process_line line i all_lines b)"
proof (cases "strip line = []")
  case True
  with assms show ?thesis
    by (simp add: process_line_source_order process_line_with_def)
next
  case nb: False
  have "error_before_async source_order"
    by (simp add: error_before_async_def source_order_def)
  with assms show ?thesis
    unfolding process_line_source_order
    by (simp add: errors_process_line_with [OF nb] error_before_async_def
          del: pass_findings.simps)
qed

lemma fold_same_but_errors:
  assumes "same_but_errors a b" and "\<forall>i. is_pass_order (order i)"
  shows "same_but_errors
           (fold (\<lambda>(i, line) s. process_line_with (order i) line i all_lines s) xs a)
           (fold (\<lambda>(i, line) s. process_line line i all_lines s) xs b)"
  using assms(1)
proof (induction xs arbitrary: a b)
  case Nil
  then show ?case by simp
next
  case (Cons x xs)
  obtain i line where x: "x = (i, line)" by (cases x)
  from assms(2) have "is_pass_order (order i)" by blast
  with Cons.prems have "same_but_errors (process_line_with (order i) line i all_lines a)
                                        (process_line line i all_lines b)"
    by (rule step_same_but_errors)
  from Cons.IH [OF this] x show ?case by simp
qed

lemma fold_errors:
  assumes "errors a = errors b" and "\<forall>i. error_before_async (order i)"
  shows "errors (fold (\<lambda>(i, line) s. process_line_with (order i) line i all_lines s) xs a) =
         errors (fold (\<lambda>(i, line) s. process_line line i all_lines s) xs b)"
  using assms(1)
proof (induction xs arbitrary: a b)
  case Nil
  then show ?case by simp
next
  case (Cons x xs)
  obtain i line where x: "x = (i, line)" by (cases x)
  from assms(2) have "error_before_async (order i)" by blast
  with Cons.prems have "errors (process_line_with (order i) line i all_lines a) =
                        errors (process_line line i all_lines b)"
    by (rule step_errors)
  from Cons.IH [OF this] x show ?case by simp
qed

lemma both_matches:
  "matched error_patterns ''bad stateerror'' = [''State Error'']"
  "nmatched async_patterns ''bad stateerror'' = 1"
  "strip ''bad stateerror'' \<noteq> []"
proof -
  show "matched error_patterns ''bad stateerror'' = [''State Error'']"
    unfolding matched_def error_patterns_def
    by (simp only: list.map filter.simps re_search_Lit re_search_Alt case_prod_conv snd_conv)
       code_simp
  show "nmatched async_patterns ''bad stateerror'' = 1"
    by code_simp
  show "strip ''bad stateerror'' \<noteq> []"
    by code_simp
qed

text \<open>
  Claim C2 as stated has the five passes write to disjoint collections. The error pass
  and the async pass both append to \<open>errors\<close>: with the async pass first, the findings
  of a line that both match come in the other order.
\<close>

theorem swapped_passes_change_errors:
  "is_pass_order swapped_order
   \<and> errors (analyze_lines_with (\<lambda>i. swapped_order) [''bad stateerror''] init)
     \<noteq> errors (analyze_lines [''bad stateerror''] init)"
proof -
  have "is_pass_order swapped_order"
    by (simp add: is_pass_order_def swapped_order_def source_order_def)
  moreover
  have "map f_type (errors (analyze_lines_with (\<lambda>i. swapped_order) [''bad stateerror''] init))
        = [''Async/Future Error'', ''State Error'']"
    by (simp add: analyze_with_single errors_process_line_with [OF both_matches(3)]
          swapped_order_def both_matches init_def mk_def)
  moreover
  have "map f_type (errors (analyze_lines [''bad stateerror''] init))
        = [''State Error'', ''Async/Future Error'']"
    by (simp add: analyze_single errors_process_line [OF both_matches(3)]
          both_matches init_def mk_def)
  ultimately show ?thesis by force
qed

text \<open>
  Claim C2, amended. Under any order of the five passes, chosen line by line, the lists
  \<open>warnings\<close>, \<open>security_issues\<close>, \<open>performance_issues\<close> and \<open>stack_traces\<close> are the
  same, every counter has the same value and the same keys are present; \<open>errors\<close> holds
  the same findings, and in the same order when the error pass still runs before the
  async pass.
\<close>

theorem pass_order_permutation:
  assumes "\<forall>i. is_pass_order (order i)"
  shows "warnings (analyze_lines_with order lines a) = warnings (analyze_lines lines a)
       \<and> security_issues (analyze_lines_with order lines a) = security_issues (analyze_lines lines a)
       \<and> performance_issues (analyze_lines_with order lines a)
           = performance_issues (analyze_lines lines a)
       \<and> stack_traces (analyze_lines_with order lines a) = stack_traces (analyze_lines lines a)
       \<and> (\<forall>k. count_of (patterns (analyze_lines_with order lines a)) k
               = count_of (patterns (analyze_lines lines a)) k)
       \<and> fst ` set (patterns (analyze_lines_with order lines a))
           = fst ` set (patterns (analyze_lines lines a))
       \<and> mset (errors (analyze_lines_with order lines a)) = mset (errors (analyze_lines lines a))
       \<and> ((\<forall>i. error_before_async (order i)) \<longrightarrow>
            errors (analyze_lines_with order lines a) = errors (analyze_lines lines a))"
proof -
  have "same_but_errors a a"
    by (simp add: same_but_errors_def)
  then have "same_but_errors (analyze_lines_with order lines a) (analyze_lines lines a)"
    unfolding analyze_lines_with_def analyze_lines_def
    using assms by (rule fold_same_but_errors)
  moreover have "errors (analyze_lines_with order lines a) = errors (analyze_lines lines a)"
    if "\<forall>i. error_before_async (order i)"
    unfolding analyze_lines_with_def analyze_lines_def
    using refl that by (rule fold_errors)
  ultimately show ?thesis
    by (simp add: same_but_errors_def)
qed

theorem pass_order_permutation_witness:
  "is_pass_order shuffled_order \<and> error_before_async shuffled_order
   \<and> errors (analyze_lines_with (\<lambda>i. shuffled_order) [''bad stateerror''] init)
       = errors (analyze_lines [''bad stateerror''] init)
   \<and> warnings (analyze_lines_with (\<lambda>i. shuffled_order) [''bad stateerror''] init)
       = warnings (analyze_lines [''bad stateerror''] init)
   \<and> is_pass_order swapped_order
   \<and> mset (errors (analyze_lines_with (\<lambda>i. swapped_order) [''bad stateerror''] init))
       = mset (errors (analyze_lines [''bad stateerror''] init))"
proof -
  have h1: "is_pass_order shuffled_order"
    by (simp add: is_pass_order_def shuffled_order_def source_order_def)
  have h2: "error_before_async shuffled_order"
    by (simp add: error_before_async_def shuffled_order_def)
  have h3: "is_pass_order swapped_order"
    by (simp add: is_pass_order_def swapped_order_def source_order_def)
  from pass_order_permutation [of "\<lambda>i. shuffled_order" "[''bad stateerror'']" init]
       pass_order_permutation [of "\<lambda>i. swapped_order" "[''bad stateerror'']" init]
       h1 h2 h3
  show ?thesis by simp
qed

end
